theory Spec2Isabelle
  imports Complex_Main "HOL-Library.Sublist"
begin

section \<open>Game constants\<close>

text \<open>
  The constants of the server file, with the values the source gives them. Coordinates
  and speeds are JavaScript numbers; they are modelled as reals (exact arithmetic),
  counts and scores as naturals and integers. Headings are modelled as binary64 values
  (next section): the movement update loops on them and compares them, and both depend
  on how the results are rounded.
\<close>

definition WORLD_WIDTH :: real where "WORLD_WIDTH = 3000"
definition WORLD_HEIGHT :: real where "WORLD_HEIGHT = 3000"
definition WORLD_GROUND_Z :: real where "WORLD_GROUND_Z = 0"
definition WORM_INITIAL_LENGTH :: nat where "WORM_INITIAL_LENGTH = 100"
definition WORM_SEGMENT_RADIUS :: real where "WORM_SEGMENT_RADIUS = 8"
definition WORM_SPEED :: real where "WORM_SPEED = 2"
definition WORM_SEGMENT_DISTANCE :: real where
  "WORM_SEGMENT_DISTANCE = WORM_SEGMENT_RADIUS * (8 / 10)"
definition FOOD_RADIUS :: real where "FOOD_RADIUS = 12"
definition MAX_FOOD :: nat where "MAX_FOOD = 50"
definition FOOD_SCORE :: int where "FOOD_SCORE = 5"
definition FOOD_DROP_CHANCE :: real where "FOOD_DROP_CHANCE = 6 / 10"
definition FOOD_DROP_INTERVAL :: nat where "FOOD_DROP_INTERVAL = 5"
definition MIN_FOOD_SPAWN_DISTANCE_SQ :: real where
  "MIN_FOOD_SPAWN_DISTANCE_SQ = (FOOD_RADIUS * 4)\<^sup>2"
definition FOOD_IMAGE_TYPES :: int where "FOOD_IMAGE_TYPES = 36"
definition FOOD_TYPE_POWER :: int where "FOOD_TYPE_POWER = 15"
definition FOOD_TYPE_ZOOM :: int where "FOOD_TYPE_ZOOM = 12"
definition FOOD_TYPE_MAGNET :: int where "FOOD_TYPE_MAGNET = 7"
definition SPEED_BOOST_FACTOR :: real where "SPEED_BOOST_FACTOR = 16 / 10"
definition POWER_UP_DURATION_MS :: int where "POWER_UP_DURATION_MS = 10000"
definition MAGNET_RADIUS_MULTIPLIER :: real where "MAGNET_RADIUS_MULTIPLIER = 6"
definition SELF_COLLISION_START_INDEX :: nat where "SELF_COLLISION_START_INDEX = 6"
definition SELF_COLLISION_THRESHOLD_SQUARED :: real where
  "SELF_COLLISION_THRESHOLD_SQUARED = (WORM_SEGMENT_RADIUS * (12 / 10))\<^sup>2"
definition OTHER_COLLISION_THRESHOLD_SQUARED :: real where
  "OTHER_COLLISION_THRESHOLD_SQUARED = (WORM_SEGMENT_RADIUS * (15 / 10))\<^sup>2"

lemmas game_consts =
  WORLD_WIDTH_def WORLD_HEIGHT_def WORLD_GROUND_Z_def WORM_INITIAL_LENGTH_def
  WORM_SEGMENT_RADIUS_def WORM_SPEED_def FOOD_RADIUS_def
  WORM_SEGMENT_DISTANCE_def
  MAX_FOOD_def FOOD_SCORE_def FOOD_DROP_CHANCE_def FOOD_DROP_INTERVAL_def
  MIN_FOOD_SPAWN_DISTANCE_SQ_def FOOD_IMAGE_TYPES_def FOOD_TYPE_POWER_def
  FOOD_TYPE_ZOOM_def FOOD_TYPE_MAGNET_def SPEED_BOOST_FACTOR_def
  POWER_UP_DURATION_MS_def MAGNET_RADIUS_MULTIPLIER_def SELF_COLLISION_START_INDEX_def
  SELF_COLLISION_THRESHOLD_SQUARED_def OTHER_COLLISION_THRESHOLD_SQUARED_def

section \<open>JavaScript numbers for headings\<close>

text \<open>
  JavaScript numbers are IEEE 754 binary64 values. Every finite one is a whole multiple
  of \<open>2^(-1074)\<close>, so \<open>DFin n\<close> stands for the number \<open>n * 2^(-1074)\<close>; the two zeros are
  not told apart (no comparison does). \<open>width n\<close> is the number of binary digits of
  \<open>n\<close>. \<open>roundUnits\<close> rounds an exact multiple to the nearest value with a 53-bit
  significand, ties to even, and to an infinity from \<open>2^1024\<close> on; addition and
  subtraction are the exact result rounded.
\<close>

datatype double = DFin int | DPosInf | DNegInf | DNaN

fun width :: "nat \<Rightarrow> nat" where
  "width n = (if n = 0 then 0 else Suc (width (n div 2)))"

declare width.simps [simp del]

definition OVERFLOW_UNITS :: nat where
  "OVERFLOW_UNITS = 2 ^ 2098"

definition roundUnits :: "int \<Rightarrow> double" where
  "roundUnits n =
     (let a = nat \<bar>n\<bar>;
          k = width a - 53;
          q = a div 2 ^ k;
          r = a mod 2 ^ k;
          q' = (if 2 * r > 2 ^ k \<or> (2 * r = 2 ^ k \<and> odd q) then q + 1 else q);
          m = q' * 2 ^ k
      in if m \<ge> OVERFLOW_UNITS then (if n < 0 then DNegInf else DPosInf)
         else DFin (if n < 0 then - int m else int m))"

fun dadd :: "double \<Rightarrow> double \<Rightarrow> double" where
  "dadd (DFin a) (DFin b) = roundUnits (a + b)"
| "dadd DNaN _ = DNaN"
| "dadd _ DNaN = DNaN"
| "dadd DPosInf DNegInf = DNaN"
| "dadd DNegInf DPosInf = DNaN"
| "dadd DPosInf _ = DPosInf"
| "dadd _ DPosInf = DPosInf"
| "dadd DNegInf _ = DNegInf"
| "dadd _ DNegInf = DNegInf"

fun dneg :: "double \<Rightarrow> double" where
  "dneg (DFin a) = DFin (- a)"
| "dneg DPosInf = DNegInf"
| "dneg DNegInf = DPosInf"
| "dneg DNaN = DNaN"

definition dsub :: "double \<Rightarrow> double \<Rightarrow> double" where
  "dsub a b = dadd a (dneg b)"

fun dle :: "double \<Rightarrow> double \<Rightarrow> bool" where
  "dle DNaN _ = False"
| "dle _ DNaN = False"
| "dle DNegInf _ = True"
| "dle _ DPosInf = True"
| "dle (DFin a) (DFin b) = (a \<le> b)"
| "dle _ _ = False"

definition dgt :: "double \<Rightarrow> double \<Rightarrow> bool" where
  "dgt a b = (dle b a \<and> \<not> dle a b)"

text \<open>
  \<open>Math.abs\<close>; the product \<open>Math.sign(d) * c\<close>, which multiplies by 1, -1 or 0 and so
  is exact; and JavaScript's \<open>%\<close>, whose result takes the sign of the dividend, the
  quotient being truncated towards zero: it is exact as well, the remainder of two
  multiples of \<open>2^(-1074)\<close> being one of them.
\<close>

fun dabs :: "double \<Rightarrow> double" where
  "dabs (DFin a) = DFin \<bar>a\<bar>"
| "dabs DPosInf = DPosInf"
| "dabs DNegInf = DPosInf"
| "dabs DNaN = DNaN"

definition signTimes :: "double \<Rightarrow> double \<Rightarrow> double" where
  "signTimes d c =
     (if dgt d (DFin 0) then c
      else if dgt (DFin 0) d then dneg c
      else if d = DNaN then DNaN
      else DFin 0)"

fun drem :: "double \<Rightarrow> double \<Rightarrow> double" where
  "drem (DFin a) (DFin b) = (if b = 0 then DNaN else DFin (sgn a * (\<bar>a\<bar> mod \<bar>b\<bar>)))"
| "drem (DFin a) DPosInf = DFin a"
| "drem (DFin a) DNegInf = DFin a"
| "drem _ _ = DNaN"

text \<open>
  \<open>Math.PI\<close> is \<open>7074237752028440 * 2^(-51)\<close>, \<open>Math.PI * 2\<close> is its exact double, and
  the literal \<open>0.05\<close> of \<open>WORM_TURN_SPEED\<close> denotes \<open>3602879701896397 * 2^(-56)\<close>.
\<close>

definition MATH_PI :: double where
  "MATH_PI = DFin (7074237752028440 * 2 ^ 1023)"

definition TWO_PI :: double where
  "TWO_PI = DFin (7074237752028440 * 2 ^ 1024)"

definition WORM_TURN_SPEED :: double where
  "WORM_TURN_SPEED = DFin (3602879701896397 * 2 ^ 1018)"

text \<open>
  \<open>toReal\<close> is the real number a finite value stands for. \<open>scaled n\<close> is the value
  \<open>n * 2^(-50)\<close>, which is how every binary64 value from 4 on can be written, \<open>2^(-50)\<close>
  being the spacing of the values between 4 and 8; \<open>Math.PI * 2\<close> is
  \<open>scaled 7074237752028440\<close>.
\<close>

fun toReal :: "double \<Rightarrow> real option" where
  "toReal (DFin n) = Some (of_int n / 2 ^ 1074)"
| "toReal _ = None"

definition scaled :: "int \<Rightarrow> double" where
  "scaled n = DFin (n * 2 ^ 1024)"

section \<open>Game state\<close>

text \<open>
  A colour is the string \<open>hsl(h, 80%, 60%)\<close> built from one random hue; only the hue
  varies, so the colour is modelled by it.
\<close>

datatype colour = Hsl real

record point =
  px :: real
  py :: real
  pz :: real

text \<open>
  Food ids are the strings \<open>food-n\<close> built from the counter \<open>nextFoodId\<close>; the id is
  modelled by the counter value \<open>n\<close> it was built from.
\<close>

record food_item =
  fid :: nat
  fx :: real
  fy :: real
  fz :: real
  fcolor :: colour
  fradius :: real
  ftype :: int

record eaten =
  eid :: nat
  eaterId :: string
  etype :: int

record bot_state =
  targetFoodId :: "nat option"
  ticksUntilTargetUpdate :: int

record worm =
  segments :: "point list"
  angle :: double
  targetAngle :: double
  color :: colour
  score :: int
  isAlive :: bool
  hasSpeedBoost :: bool
  speedBoostEndTime :: int
  isMagnetActive :: bool
  botState :: "bot_state option"

record player =
  pid :: string
  pname :: string
  isBot :: bool
  pworm :: "worm option"

text \<open>
  The module-level variables. \<open>players\<close> is an object used as a dictionary from socket
  or bot id to player; JavaScript enumerates its string keys in insertion order, so it is
  an association list. \<open>rngPos\<close> is not a variable of the source: it counts the calls of
  \<open>Math.random()\<close> made so far, the \<open>n\<close>-th call returning the \<open>n\<close>-th element of a
  sequence of reals that every function using randomness takes as a parameter.
\<close>

record world =
  players :: "(string \<times> player) list"
  food :: "food_item list"
  eatenFoodThisTick :: "eaten list"
  nextFoodId :: nat
  nextBotId :: nat
  rngPos :: nat

definition update_worm_of :: "string \<Rightarrow> (worm \<Rightarrow> worm) \<Rightarrow> world \<Rightarrow> world" where
  "update_worm_of k f w =
     w\<lparr>players := map (\<lambda>(k', p). if k' = k then (k', p\<lparr>pworm := map_option f (pworm p)\<rparr>)
                                     else (k', p)) (players w)\<rparr>"

section \<open>The playerInput handler\<close>

text \<open>
  The payload of a socket event is any JavaScript value. The handler only looks at
  whether \<open>data\<close> is truthy and at \<open>data.angle\<close>, so a payload is either falsy or carries
  the value of its \<open>angle\<close> property (\<open>JUndefined\<close> when it has none).
\<close>

datatype jsval = JNum double | JStr string | JBool bool | JNull | JUndefined | JObject

datatype payload = Falsy | Data jsval

fun isNumber :: "jsval \<Rightarrow> bool" where
  "isNumber (JNum _) = True"
| "isNumber _ = False"

fun isFinite :: "jsval \<Rightarrow> bool" where
  "isFinite (JNum (DFin _)) = True"
| "isFinite _ = False"

fun finiteValue :: "jsval \<Rightarrow> double option" where
  "finiteValue (JNum (DFin a)) = Some (DFin a)"
| "finiteValue _ = None"

definition playerInput :: "string \<Rightarrow> payload \<Rightarrow> world \<Rightarrow> world" where
  "playerInput socketId data w =
     (case map_of (players w) socketId of
        None \<Rightarrow> w
      | Some player \<Rightarrow>
         (case pworm player of
            None \<Rightarrow> w
          | Some wm \<Rightarrow>
             (case data of
                Falsy \<Rightarrow> w
              | Data v \<Rightarrow>
                 (if isAlive wm \<and> isNumber v \<and> isFinite v
                  then (case finiteValue v of
                          Some a \<Rightarrow> update_worm_of socketId (\<lambda>wm. wm\<lparr>targetAngle := a\<rparr>) w
                        | None \<Rightarrow> w)
                  else w))))"

definition worm_of :: "world \<Rightarrow> string \<Rightarrow> worm option" where
  "worm_of w k = (case map_of (players w) k of None \<Rightarrow> None | Some p \<Rightarrow> pworm p)"

section \<open>The leaderboard\<close>

record lb_entry =
  lid :: string
  lname :: string
  lscore :: int
  lcolor :: colour

definition entry_of :: "player \<Rightarrow> worm \<Rightarrow> lb_entry" where
  "entry_of p wm =
     \<lparr>lid = pid p,
      lname = (if pname p \<noteq> [] then pname p
               else (if isBot p then ''Bot'' else ''Worm'') @ '' '' @ take 4 (pid p)),
      lscore = score wm,
      lcolor = color wm\<rparr>"

text \<open>
  \<open>Array.prototype.sort\<close> with the comparator \<open>b.score - a.score\<close> is a stable sort
  (ECMAScript 2019) into descending score; \<open>sort_key\<close> on the negated score is the
  stable insertion sort into that order.
\<close>

definition leaderboardEntries :: "world \<Rightarrow> lb_entry list" where
  "leaderboardEntries w =
     map (\<lambda>p. entry_of p (the (pworm p)))
       (filter (\<lambda>p. pworm p \<noteq> None) (map snd (players w)))"

definition getLeaderboard :: "world \<Rightarrow> lb_entry list" where
  "getLeaderboard w = take 10 (sort_key (\<lambda>e. - lscore e) (leaderboardEntries w))"

section \<open>Movement: updateWorm\<close>

text \<open>
  \<open>createInitialWormSegments\<close> lays the body out from the head against the starting
  direction; \<open>ang\<close> is the real value of the starting angle.
\<close>

definition createInitialWormSegments :: "real \<Rightarrow> real \<Rightarrow> nat \<Rightarrow> real \<Rightarrow> point list" where
  "createInitialWormSegments startX startY len ang =
     map (\<lambda>i. \<lparr>px = startX - cos ang * real i * WORM_SEGMENT_DISTANCE,
                py = startY - sin ang * real i * WORM_SEGMENT_DISTANCE,
                pz = WORLD_GROUND_Z\<rparr>) [0..<len]"

text \<open>
  \<open>raiseAngleD\<close> and \<open>lowerAngleD\<close> are the two \<open>while\<close> loops of \<open>updateWorm\<close>,
  \<open>angleDiffD\<close> the difference \<open>targetAngle - currentAngle\<close> followed by them; \<open>None\<close> is
  a loop that does not end. \<open>turnedAngle\<close> is the value of \<open>currentAngle\<close> after the
  \<open>if\<close> that turns by one step or snaps to the target.
\<close>

partial_function (option) raiseAngleD :: "double \<Rightarrow> double option" where
  "raiseAngleD d = (if dle d (dneg MATH_PI) then raiseAngleD (dadd d TWO_PI) else Some d)"

partial_function (option) lowerAngleD :: "double \<Rightarrow> double option" where
  "lowerAngleD d = (if dgt d MATH_PI then lowerAngleD (dsub d TWO_PI) else Some d)"

definition angleDiffD :: "double \<Rightarrow> double \<Rightarrow> double option" where
  "angleDiffD target current =
     Option.bind (raiseAngleD (dsub target current)) lowerAngleD"

definition turnedAngle :: "worm \<Rightarrow> double option" where
  "turnedAngle wm =
     (case angleDiffD (targetAngle wm) (angle wm) of
        None \<Rightarrow> None
      | Some angleDiff \<Rightarrow>
          Some (if dgt (dabs angleDiff) WORM_TURN_SPEED
                then dadd (angle wm) (signTimes angleDiff WORM_TURN_SPEED)
                else targetAngle wm))"

definition currentSpeed :: "int \<Rightarrow> worm \<Rightarrow> real" where
  "currentSpeed now wm =
     (if hasSpeedBoost wm \<and> now < speedBoostEndTime wm
      then WORM_SPEED * SPEED_BOOST_FACTOR else WORM_SPEED)"

text \<open>
  \<open>updateWorm\<close> reads the clock once (\<open>Date.now()\<close>); the reading is the parameter
  \<open>now\<close>, in milliseconds. Every segment of the source carries a \<open>z\<close>, so the default
  of \<open>head.z ?? WORLD_GROUND_Z\<close> is never taken. The cosine and sine are taken of the
  real value of the new heading. For a heading that is not finite the source computes
  the coordinates \<open>NaN\<close>, which the real coordinates of this model do not have: the
  model has no result there (\<open>None\<close>). The input handler stores finite angles only.
\<close>

definition updateWorm :: "int \<Rightarrow> worm \<Rightarrow> worm option" where
  "updateWorm now wm =
     (if \<not> isAlive wm then Some wm
      else case segments wm of
        [] \<Rightarrow> Some wm
      | head # _ \<Rightarrow>
          (case turnedAngle wm of
             None \<Rightarrow> None
           | Some currentAngle \<Rightarrow>
               (let newAngle = drem (dadd currentAngle TWO_PI) TWO_PI
                in case toReal newAngle of
                     None \<Rightarrow> None
                   | Some a \<Rightarrow>
                       (let newHead = \<lparr>px = px head + cos a * currentSpeed now wm,
                                       py = py head + sin a * currentSpeed now wm,
                                       pz = pz head\<rparr>
                        in Some (wm\<lparr>angle := newAngle,
                                    segments := newHead # segments wm\<rparr>)))))"

section \<open>Food: spawning\<close>

text \<open>
  \<open>Math.random()\<close>: the call numbered \<open>rngPos\<close> returns \<open>R rngPos\<close>, a number in
  \<open>[0, 1)\<close>, and advances the count.
\<close>

definition mathRandom :: "(nat \<Rightarrow> real) \<Rightarrow> world \<Rightarrow> real \<times> world" where
  "mathRandom R w = (R (rngPos w), w\<lparr>rngPos := Suc (rngPos w)\<rparr>)"

definition getRandomColor :: "(nat \<Rightarrow> real) \<Rightarrow> world \<Rightarrow> colour \<times> world" where
  "getRandomColor R w = (let (r, w') = mathRandom R w in (Hsl (r * 360), w'))"

definition getRandomSpawnPositionXY ::
    "(nat \<Rightarrow> real) \<Rightarrow> real \<Rightarrow> world \<Rightarrow> (real \<times> real) \<times> world" where
  "getRandomSpawnPositionXY R margin w =
     (let (r1, w1) = mathRandom R w;
          x = r1 * (WORLD_WIDTH - 2 * margin) + margin;
          (r2, w2) = mathRandom R w1;
          y = r2 * (WORLD_HEIGHT - 2 * margin) + margin
      in ((x, y), w2))"

text \<open>
  \<open>isSpawnPositionClear\<close> reads \<open>segments[0].x\<close> of every living worm. A living worm
  with no segments makes that a TypeError; functions that can throw return an option,
  \<open>None\<close> standing for the exception (or, as in \<open>updateWorm\<close>, for a loop that does not
  end).
\<close>

fun foodClear :: "real \<Rightarrow> real \<Rightarrow> food_item list \<Rightarrow> bool" where
  "foodClear x y [] = True"
| "foodClear x y (f # fs) =
     (let dx = x - fx f; dy = y - fy f
      in if dx * dx + dy * dy < MIN_FOOD_SPAWN_DISTANCE_SQ then False
         else foodClear x y fs)"

fun headsClear :: "real \<Rightarrow> real \<Rightarrow> (string \<times> player) list \<Rightarrow> bool option" where
  "headsClear x y [] = Some True"
| "headsClear x y ((pId, player) # ps) =
     (case pworm player of
        None \<Rightarrow> headsClear x y ps
      | Some wm \<Rightarrow>
          if isAlive wm then
            (case segments wm of
               [] \<Rightarrow> None
             | head # _ \<Rightarrow>
                 (let dx = x - px head; dy = y - py head
                  in if dx * dx + dy * dy < (WORM_SEGMENT_RADIUS * 10)\<^sup>2 then Some False
                     else headsClear x y ps))
          else headsClear x y ps)"

definition isSpawnPositionClear :: "real \<Rightarrow> real \<Rightarrow> world \<Rightarrow> bool option" where
  "isSpawnPositionClear x y w =
     (if foodClear x y (food w) then headsClear x y (players w) else Some False)"

text \<open>
  The search loop of \<open>spawnFood\<close>: the numeric argument is the number of attempts left
  (\<open>maxAttempts - attempts\<close>); the result is the clear position found, if any.
\<close>

fun findSpawnPos ::
    "(nat \<Rightarrow> real) \<Rightarrow> nat \<Rightarrow> world \<Rightarrow> ((real \<times> real) option \<times> world) option" where
  "findSpawnPos R 0 w = Some (None, w)"
| "findSpawnPos R (Suc n) w =
     (let (potentialPos, w') = getRandomSpawnPositionXY R (FOOD_RADIUS * 4) w
      in case isSpawnPositionClear (fst potentialPos) (snd potentialPos) w' of
           None \<Rightarrow> None
         | Some clear \<Rightarrow>
             if clear then Some (Some potentialPos, w') else findSpawnPos R n w')"

definition randomFoodType :: "real \<Rightarrow> int" where
  "randomFoodType r = \<lfloor>r * of_int FOOD_IMAGE_TYPES\<rfloor> + 1"

text \<open>One round of the \<open>for\<close> loop of \<open>spawnFood\<close>, after its test of the cap.\<close>

definition spawnOne :: "(nat \<Rightarrow> real) \<Rightarrow> world \<Rightarrow> world option" where
  "spawnOne R w =
     (case findSpawnPos R 15 w of
        None \<Rightarrow> None
      | Some (found, w1) \<Rightarrow>
          (let (spawnPos, w2) =
                 (case found of
                    Some pos \<Rightarrow> (pos, w1)
                  | None \<Rightarrow> getRandomSpawnPositionXY R (FOOD_RADIUS * 2) w1);
               (r, w3) = mathRandom R w2;
               foodType = randomFoodType r;
               (col, w4) = getRandomColor R w3
           in Some (w4\<lparr>food := food w4 @
                          [\<lparr>fid = nextFoodId w4, fx = fst spawnPos, fy = snd spawnPos,
                            fz = WORLD_GROUND_Z, fcolor = col, fradius = FOOD_RADIUS,
                            ftype = foodType\<rparr>],
                        nextFoodId := Suc (nextFoodId w4)\<rparr>)))"

fun spawnFood :: "(nat \<Rightarrow> real) \<Rightarrow> nat \<Rightarrow> world \<Rightarrow> world option" where
  "spawnFood R 0 w = Some w"
| "spawnFood R (Suc n) w =
     (if length (food w) \<ge> MAX_FOOD then Some w
      else case spawnOne R w of
             None \<Rightarrow> None
           | Some w' \<Rightarrow> spawnFood R n w')"


section \<open>Food: consumption in checkCollisions\<close>

text \<open>
  The body of \<open>if (distSq < effectiveCollisionThresholdSq)\<close> up to the test for
  \<open>break\<close>, for the player stored under key \<open>k\<close> eating \<open>food[j]\<close>. The source holds
  references to the player and its worm; the model looks them up under \<open>k\<close> and returns
  \<open>None\<close> when there is none (a state no run of the source is in). \<open>Date.now()\<close> is
  the parameter \<open>now\<close>. The timer that ends the magnet is not part of a tick.
\<close>

definition eatFood ::
    "(nat \<Rightarrow> real) \<Rightarrow> int \<Rightarrow> string \<Rightarrow> nat \<Rightarrow> world \<Rightarrow> world option" where
  "eatFood R now k j w =
     (case map_of (players w) k of
        None \<Rightarrow> None
      | Some player \<Rightarrow>
          (let eatenFoodItem = food w ! j;
               w1 = w\<lparr>food := take j (food w) @ drop (Suc j) (food w)\<rparr>;
               w2 = w1\<lparr>eatenFoodThisTick := eatenFoodThisTick w1 @
                         [\<lparr>eid = fid eatenFoodItem, eaterId = pid player,
                           etype = ftype eatenFoodItem\<rparr>]\<rparr>;
               w3 = update_worm_of k (\<lambda>wm. wm\<lparr>score := score wm + FOOD_SCORE\<rparr>) w2
           in case spawnFood R 1 w3 of
                None \<Rightarrow> None
              | Some w4 \<Rightarrow>
                  (let w5 =
                         (if ftype eatenFoodItem = FOOD_TYPE_POWER then
                            update_worm_of k
                              (\<lambda>wm. wm\<lparr>hasSpeedBoost := True,
                                        speedBoostEndTime := now + POWER_UP_DURATION_MS\<rparr>) w4
                          else if ftype eatenFoodItem = FOOD_TYPE_MAGNET then
                            update_worm_of k (\<lambda>wm. wm\<lparr>isMagnetActive := True\<rparr>) w4
                          else w4)
                   in if isBot player then
                        (case worm_of w5 k of
                           None \<Rightarrow> None
                         | Some wm \<Rightarrow>
                             (case botState wm of
                                None \<Rightarrow> None
                              | Some bs \<Rightarrow>
                                  if targetFoodId bs = Some (fid eatenFoodItem) then
                                    Some (update_worm_of k
                                      (\<lambda>wm. wm\<lparr>botState :=
                                         Some \<lparr>targetFoodId = None,
                                               ticksUntilTargetUpdate = 0\<rparr>\<rparr>) w5)
                                  else Some w5))
                      else Some w5)))"

text \<open>
  The test of one food item against the head: the squared distance is below the square
  of the effective collision radius, which is larger while the magnet is active.
\<close>

definition foodInReach :: "worm \<Rightarrow> point \<Rightarrow> food_item \<Rightarrow> bool" where
  "foodInReach wm head f =
     (let dx = px head - fx f;
          dy = py head - fy f;
          distSq = dx * dx + dy * dy;
          effectiveCollisionRadius =
            (if isMagnetActive wm
             then WORM_SEGMENT_RADIUS + FOOD_RADIUS * MAGNET_RADIUS_MULTIPLIER
             else WORM_SEGMENT_RADIUS + FOOD_RADIUS)
      in distSq < effectiveCollisionRadius\<^sup>2)"

text \<open>
  The scan \<open>for (let j = food.length - 1; j >= 0; j--)\<close>: the numeric argument is
  \<open>j + 1\<close>. The result is the flag \<open>ateFoodThisTickFlag\<close> and the new state. An index
  beyond the list would make \<open>f.x\<close> a TypeError.
\<close>

fun eatLoop ::
    "(nat \<Rightarrow> real) \<Rightarrow> int \<Rightarrow> string \<Rightarrow> point \<Rightarrow> nat \<Rightarrow> bool \<Rightarrow> world
       \<Rightarrow> (bool \<times> world) option" where
  "eatLoop R now k head 0 ate w = Some (ate, w)"
| "eatLoop R now k head (Suc j) ate w =
     (case worm_of w k of
        None \<Rightarrow> None
      | Some wm \<Rightarrow>
          if j < length (food w) then
            (if foodInReach wm head (food w ! j) then
               (case eatFood R now k j w of
                  None \<Rightarrow> None
                | Some w' \<Rightarrow>
                    (case worm_of w' k of
                       None \<Rightarrow> None
                     | Some wm' \<Rightarrow>
                         if \<not> isMagnetActive wm' then Some (True, w')
                         else eatLoop R now k head j True w'))
             else eatLoop R now k head j ate w)
          else None)"

text \<open>
  One round of \<open>for (const player of livingWorms)\<close> in the food part of
  \<open>checkCollisions\<close>, for the living player under key \<open>k\<close>.
\<close>

definition foodCollision :: "(nat \<Rightarrow> real) \<Rightarrow> int \<Rightarrow> string \<Rightarrow> world \<Rightarrow> world option" where
  "foodCollision R now k w =
     (case worm_of w k of
        None \<Rightarrow> None
      | Some wm \<Rightarrow>
          (case segments wm of
             [] \<Rightarrow> Some w
           | head # _ \<Rightarrow>
               (case eatLoop R now k head (length (food w)) False w of
                  None \<Rightarrow> None
                | Some (ateFoodThisTickFlag, w') \<Rightarrow>
                    (case worm_of w' k of
                       None \<Rightarrow> None
                     | Some wm' \<Rightarrow>
                         if \<not> ateFoodThisTickFlag
                            \<and> length (segments wm') > WORM_INITIAL_LENGTH
                         then Some (update_worm_of k
                                 (\<lambda>wm. wm\<lparr>segments := butlast (segments wm)\<rparr>) w')
                         else Some w'))))"

definition livingWorms :: "world \<Rightarrow> string list" where
  "livingWorms w =
     map fst (filter (\<lambda>(k, p). case pworm p of None \<Rightarrow> False | Some wm \<Rightarrow> isAlive wm)
                (players w))"

fun foodCollisions ::
    "(nat \<Rightarrow> real) \<Rightarrow> int \<Rightarrow> string list \<Rightarrow> world \<Rightarrow> world option" where
  "foodCollisions R now [] w = Some w"
| "foodCollisions R now (k # ks) w =
     (case foodCollision R now k w of
        None \<Rightarrow> None
      | Some w' \<Rightarrow> foodCollisions R now ks w')"

section \<open>Food: dropped on death\<close>

definition specialFoodTypes :: "int list" where
  "specialFoodTypes = [FOOD_TYPE_POWER, FOOD_TYPE_ZOOM, FOOD_TYPE_MAGNET]"

text \<open>
  The loop \<open>while (specialFoodTypes.includes(foodType))\<close> draws again as long as the
  type is a reserved one; with a sequence of random numbers that keeps hitting reserved
  types it does not end.
\<close>

partial_function (option) redrawFoodType ::
    "(nat \<Rightarrow> real) \<Rightarrow> int \<Rightarrow> world \<Rightarrow> (int \<times> world) option" where
  "redrawFoodType R foodType w =
     (if foodType \<in> set specialFoodTypes
      then redrawFoodType R (randomFoodType (fst (mathRandom R w))) (snd (mathRandom R w))
      else Some (foodType, w))"

text \<open>
  The callback of \<open>segments.forEach\<close> in \<open>killPlayer\<close>, run over the segments from the
  one with the given index on; \<open>col\<close> is the colour of the dying worm.
\<close>

fun dropFood ::
    "(nat \<Rightarrow> real) \<Rightarrow> colour \<Rightarrow> nat \<Rightarrow> point list \<Rightarrow> world \<Rightarrow> world option" where
  "dropFood R col index [] w = Some w"
| "dropFood R col index (seg # segs) w =
     (if index mod FOOD_DROP_INTERVAL = 0 then
        (let (r, w1) = mathRandom R w
         in if r < FOOD_DROP_CHANCE then
              (if length (food w1) < MAX_FOOD then
                 (let (r2, w2) = mathRandom R w1
                  in case redrawFoodType R (randomFoodType r2) w2 of
                       None \<Rightarrow> None
                     | Some (foodType, w3) \<Rightarrow>
                         dropFood R col (Suc index) segs
                           (w3\<lparr>food := food w3 @
                                  [\<lparr>fid = nextFoodId w3, fx = px seg, fy = py seg,
                                    fz = pz seg, fcolor = col, fradius = FOOD_RADIUS,
                                    ftype = foodType\<rparr>],
                                nextFoodId := Suc (nextFoodId w3)\<rparr>))
               else dropFood R col (Suc index) segs w1)
            else dropFood R col (Suc index) segs w1)
      else dropFood R col (Suc index) segs w)"

text \<open>
  \<open>killPlayer\<close>, as far as it changes the game state: the worm is marked dead and drops
  food. The game-over message and the timer that respawns a bot are outside the state.
\<close>

definition killPlayer :: "(nat \<Rightarrow> real) \<Rightarrow> string \<Rightarrow> world \<Rightarrow> world option" where
  "killPlayer R pId w =
     (case worm_of w pId of
        None \<Rightarrow> Some w
      | Some wm \<Rightarrow>
          if isAlive wm then
            dropFood R (color wm) 0 (segments wm)
              (update_worm_of pId (\<lambda>wm. wm\<lparr>isAlive := False\<rparr>) w)
          else Some w)"

section \<open>Collisions between worms, and the tick\<close>

text \<open>
  The second loop of \<open>checkCollisions\<close>. A worm dies when its head is outside the
  world, within the self-collision distance of one of its own segments from index 6 on,
  or within the other-collision distance of a segment of another worm of the snapshot
  that is still alive. Whichever test fires, the effect on the state is one call of
  \<open>killPlayer(player.id)\<close> followed by \<open>worm.isAlive = false\<close>.
\<close>

definition outsideWorld :: "point \<Rightarrow> bool" where
  "outsideWorld head =
     (px head < 0 \<or> px head > WORLD_WIDTH \<or> py head < 0 \<or> py head > WORLD_HEIGHT)"

definition segmentNear :: "point \<Rightarrow> real \<Rightarrow> point \<Rightarrow> bool" where
  "segmentNear head threshold seg =
     (let dx = px head - px seg; dy = py head - py seg
      in dx * dx + dy * dy < threshold)"

definition hitsSelf :: "worm \<Rightarrow> point \<Rightarrow> bool" where
  "hitsSelf wm head =
     list_ex (segmentNear head SELF_COLLISION_THRESHOLD_SQUARED)
       (drop SELF_COLLISION_START_INDEX (segments wm))"

definition hitsOther :: "string list \<Rightarrow> player \<Rightarrow> point \<Rightarrow> world \<Rightarrow> bool" where
  "hitsOther living player head w =
     list_ex (\<lambda>k'. case map_of (players w) k' of
                     None \<Rightarrow> False
                   | Some otherPlayer \<Rightarrow>
                       (case pworm otherPlayer of
                          None \<Rightarrow> False
                        | Some otherWorm \<Rightarrow>
                            pid player \<noteq> pid otherPlayer \<and> isAlive otherWorm
                            \<and> list_ex (segmentNear head OTHER_COLLISION_THRESHOLD_SQUARED)
                                 (segments otherWorm)))
       living"

definition wormCollision ::
    "(nat \<Rightarrow> real) \<Rightarrow> string list \<Rightarrow> string \<Rightarrow> world \<Rightarrow> world option" where
  "wormCollision R living k w =
     (case map_of (players w) k of
        None \<Rightarrow> None
      | Some player \<Rightarrow>
          (case pworm player of
             None \<Rightarrow> None
           | Some wm \<Rightarrow>
               (case segments wm of
                  [] \<Rightarrow> Some w
                | head # _ \<Rightarrow>
                    if outsideWorld head
                       \<or> (isAlive wm \<and> (hitsSelf wm head \<or> hitsOther living player head w))
                    then (case killPlayer R (pid player) w of
                            None \<Rightarrow> None
                          | Some w' \<Rightarrow>
                              Some (update_worm_of k (\<lambda>wm. wm\<lparr>isAlive := False\<rparr>) w'))
                    else Some w)))"

fun wormCollisions ::
    "(nat \<Rightarrow> real) \<Rightarrow> string list \<Rightarrow> string list \<Rightarrow> world \<Rightarrow> world option" where
  "wormCollisions R living [] w = Some w"
| "wormCollisions R living (k # ks) w =
     (case wormCollision R living k w of
        None \<Rightarrow> None
      | Some w' \<Rightarrow> wormCollisions R living ks w')"

text \<open>
  \<open>checkCollisions\<close>: the list of eaten food is emptied, the living worms are listed
  once, every one of them eats, then every one of them is tested for collisions.
\<close>

definition checkCollisions :: "(nat \<Rightarrow> real) \<Rightarrow> int \<Rightarrow> world \<Rightarrow> world option" where
  "checkCollisions R now w =
     (let living = livingWorms w
      in case foodCollisions R now living (w\<lparr>eatenFoodThisTick := []\<rparr>) of
           None \<Rightarrow> None
         | Some w' \<Rightarrow> wormCollisions R living living w')"

text \<open>
  Steps 2 and 3 of \<open>gameLoop\<close>: \<open>updateWorm\<close> for every player with a living worm, in
  the order of the registry, then \<open>checkCollisions\<close>. An update that does not return
  stops the tick. The steps before them add or remove bots and set the desired headings
  of bots; the steps after them read the state.
\<close>

fun movePlayers :: "int \<Rightarrow> (string \<times> player) list \<Rightarrow> (string \<times> player) list option" where
  "movePlayers now [] = Some []"
| "movePlayers now ((k, player) # ps) =
     (case (case pworm player of
              None \<Rightarrow> Some player
            | Some wm \<Rightarrow>
                if isAlive wm
                then map_option (\<lambda>wm'. player\<lparr>pworm := Some wm'\<rparr>) (updateWorm now wm)
                else Some player) of
        None \<Rightarrow> None
      | Some player' \<Rightarrow> map_option ((#) (k, player')) (movePlayers now ps))"

definition moveWorms :: "int \<Rightarrow> world \<Rightarrow> world option" where
  "moveWorms now w = map_option (\<lambda>ps. w\<lparr>players := ps\<rparr>) (movePlayers now (players w))"

definition moveAndCollide :: "(nat \<Rightarrow> real) \<Rightarrow> int \<Rightarrow> world \<Rightarrow> world option" where
  "moveAndCollide R now w =
     (case moveWorms now w of
        None \<Rightarrow> None
      | Some w' \<Rightarrow> checkCollisions R now w')"

text \<open>
  A run of ticks, one for each clock reading of the list.
\<close>

fun runTicks :: "(nat \<Rightarrow> real) \<Rightarrow> int list \<Rightarrow> world \<Rightarrow> world option" where
  "runTicks R [] w = Some w"
| "runTicks R (now # ts) w =
     (case moveAndCollide R now w of
        None \<Rightarrow> None
      | Some w' \<Rightarrow> runTicks R ts w')"

text \<open>
  The operations that create or destroy food, and runs of them in any order: every
  change of \<open>food\<close> and \<open>nextFoodId\<close> in the source happens inside \<open>spawnFood\<close>,
  \<open>killPlayer\<close> or \<open>checkCollisions\<close>, a single round of whose food loop is an
  operation of its own.
\<close>

datatype food_op =
  SpawnFood nat | KillPlayer string | FoodCollision int string | CheckCollisions int

fun applyOp :: "(nat \<Rightarrow> real) \<Rightarrow> food_op \<Rightarrow> world \<Rightarrow> world option" where
  "applyOp R (SpawnFood n) w = spawnFood R n w"
| "applyOp R (KillPlayer pId) w = killPlayer R pId w"
| "applyOp R (FoodCollision now k) w = foodCollision R now k w"
| "applyOp R (CheckCollisions now) w = checkCollisions R now w"

fun runOps :: "(nat \<Rightarrow> real) \<Rightarrow> food_op list \<Rightarrow> world \<Rightarrow> world option" where
  "runOps R [] w = Some w"
| "runOps R (op # ops) w =
     (case applyOp R op w of
        None \<Rightarrow> None
      | Some w' \<Rightarrow> runOps R ops w')"

section \<open>The invariant of food ids\<close>

text \<open>
  The ids of the food present are pairwise different and below the counter; and from one
  state to a later one the counter does not go down and every item present later either
  was present before or carries an id the counter had not reached.
\<close>

definition ids_ok :: "world \<Rightarrow> bool" where
  "ids_ok w = (distinct (map fid (food w)) \<and> (\<forall>f \<in> set (food w). fid f < nextFoodId w))"

definition ids_step :: "world \<Rightarrow> world \<Rightarrow> bool" where
  "ids_step w w' =
     (ids_ok w' \<and> nextFoodId w \<le> nextFoodId w'
      \<and> (\<forall>g \<in> set (food w'). g \<in> set (food w) \<or> nextFoodId w \<le> fid g))"

text \<open>
  Every player is stored in \<open>players\<close> under its own id (\<open>players[socket.id]\<close> gets
  \<open>id: socket.id\<close>, \<open>players[botId]\<close> gets \<open>id: botId\<close>), and the keys of an object are
  distinct.
\<close>

definition key_ids :: "world \<Rightarrow> (string \<times> string) list" where
  "key_ids w = map (\<lambda>(k, p). (k, pid p)) (players w)"

definition wellKeyed :: "world \<Rightarrow> bool" where
  "wellKeyed w =
     (distinct (map fst (players w)) \<and> (\<forall>(k, p) \<in> set (players w). pid p = k))"

section \<open>Example states\<close>

text \<open>
  A human player whose worm heads west (heading \<open>Math.PI\<close>), was sent the angle
  \<open>-3 * Math.PI\<close> (the product is exact: \<open>-10611356628042660 * 2^(-50)\<close>) and holds a
  speed boost that expires at time 10000; its body is 100 segments long.
\<close>

definition ex_worm :: worm where
  "ex_worm =
     \<lparr>segments = replicate 100 \<lparr>px = 100, py = 100, pz = 0\<rparr>,
      angle = MATH_PI, targetAngle = scaled (- 10611356628042660), color = Hsl 0,
      score = 0, isAlive = True,
      hasSpeedBoost = True, speedBoostEndTime = 10000, isMagnetActive = False,
      botState = None\<rparr>"

definition ex_player :: player where
  "ex_player = \<lparr>pid = ''p1'', pname = ''Ann'', isBot = False, pworm = Some ex_worm\<rparr>"

definition ex_world :: world where
  "ex_world =
     \<lparr>players = [(''p1'', ex_player)], food = [], eatenFoodThisTick = [],
      nextFoodId = 0, nextBotId = 0, rngPos = 0\<rparr>"

text \<open>
  A freshly spawned worm: 100 segments laid out westwards from (1000, 1000), heading
  east, alone in a world without food.
\<close>

definition ex_long :: worm where
  "ex_long =
     \<lparr>segments = createInitialWormSegments 1000 1000 WORM_INITIAL_LENGTH 0,
      angle = DFin 0, targetAngle = DFin 0, color = Hsl 0, score = 0, isAlive = True,
      hasSpeedBoost = False, speedBoostEndTime = 0, isMagnetActive = False,
      botState = None\<rparr>"

definition ex_fresh :: world where
  "ex_fresh =
     \<lparr>players = [(''p1'', \<lparr>pid = ''p1'', pname = ''Ann'', isBot = False,
                          pworm = Some ex_long\<rparr>)],
      food = [], eatenFoodThisTick = [], nextFoodId = 0, nextBotId = 0, rngPos = 0\<rparr>"

text \<open>
  Four registered players: two worms tied on 5 points around one on 10, and an entry
  with no worm data.
\<close>

definition ex_board :: world where
  "ex_board =
     ex_world\<lparr>players :=
       [(''a'', \<lparr>pid = ''a'', pname = ''Ann'', isBot = False,
                 pworm = Some (ex_worm\<lparr>score := 5\<rparr>)\<rparr>),
        (''b'', \<lparr>pid = ''b'', pname = ''Bob'', isBot = False,
                 pworm = Some (ex_worm\<lparr>score := 10\<rparr>)\<rparr>),
        (''x'', \<lparr>pid = ''x'', pname = ''Xen'', isBot = False, pworm = None\<rparr>),
        (''bot_0'', \<lparr>pid = ''bot_0'', pname = [], isBot = True,
                 pworm = Some (ex_worm\<lparr>score := 5\<rparr>)\<rparr>)]\<rparr>"

text \<open>
  A short worm at (100, 100) heading east, not boosted and without magnet, with two food
  items in the world: a cosmetic one 50 units east of the head and, later in the list, a
  magnet item 10 units north of it. \<open>ex_R\<close> is a sequence of random numbers that sends
  the first replacement food to (1500, 1500) and the second to (774, 774).
\<close>

definition ex_eater :: worm where
  "ex_eater =
     \<lparr>segments = [\<lparr>px = 100, py = 100, pz = 0\<rparr>],
      angle = DFin 0, targetAngle = DFin 0, color = Hsl 0, score = 0, isAlive = True,
      hasSpeedBoost = False, speedBoostEndTime = 0, isMagnetActive = False,
      botState = None\<rparr>"

definition ex_item :: "nat \<Rightarrow> real \<Rightarrow> real \<Rightarrow> int \<Rightarrow> food_item" where
  "ex_item i x y t =
     \<lparr>fid = i, fx = x, fy = y, fz = 0, fcolor = Hsl 0, fradius = FOOD_RADIUS, ftype = t\<rparr>"

definition ex_meal :: world where
  "ex_meal =
     \<lparr>players = [(''p1'', \<lparr>pid = ''p1'', pname = ''Ann'', isBot = False,
                          pworm = Some ex_eater\<rparr>)],
      food = [ex_item 0 150 100 1, ex_item 1 100 110 FOOD_TYPE_MAGNET],
      eatenFoodThisTick = [], nextFoodId = 2, nextBotId = 0, rngPos = 0\<rparr>"

definition ex_magnet_meal :: world where
  "ex_magnet_meal =
     \<lparr>players = [(''p1'', \<lparr>pid = ''p1'', pname = ''Ann'', isBot = False,
                          pworm = Some (ex_eater\<lparr>isMagnetActive := True\<rparr>)\<rparr>)],
      food = [ex_item 0 150 100 1, ex_item 1 100 110 2],
      eatenFoodThisTick = [], nextFoodId = 2, nextBotId = 0, rngPos = 0\<rparr>"

text \<open>The same world with two cosmetic items: the worm without magnet eats one.\<close>

definition ex_snack :: world where
  "ex_snack = ex_meal\<lparr>food := [ex_item 0 150 100 1, ex_item 1 100 110 2]\<rparr>"

text \<open>
  The states the world \<open>ex_meal\<close> goes through when its worm eats both items, is then
  killed and drops one item, and one more item is spawned.
\<close>

definition ex_meal_eaten :: world where
  "ex_meal_eaten =
     \<lparr>players = [(''p1'', \<lparr>pid = ''p1'', pname = ''Ann'', isBot = False,
                          pworm = Some (ex_eater\<lparr>score := 10, isMagnetActive := True\<rparr>)\<rparr>)],
      food = [ex_item 2 1500 1500 1, ex_item 3 774 774 1],
      eatenFoodThisTick = [\<lparr>eid = 1, eaterId = ''p1'', etype = FOOD_TYPE_MAGNET\<rparr>,
                           \<lparr>eid = 0, eaterId = ''p1'', etype = 1\<rparr>],
      nextFoodId = 4, nextBotId = 0, rngPos = 8\<rparr>"

definition ex_meal_killed :: world where
  "ex_meal_killed =
     ex_meal_eaten
       \<lparr>players := [(''p1'', \<lparr>pid = ''p1'', pname = ''Ann'', isBot = False,
                          pworm = Some (ex_eater\<lparr>score := 10, isAlive := False,
                                                 isMagnetActive := True\<rparr>)\<rparr>)],
        food := [ex_item 2 1500 1500 1, ex_item 3 774 774 1, ex_item 4 100 100 1],
        nextFoodId := 5, rngPos := 10\<rparr>"

definition ex_meal_refilled :: world where
  "ex_meal_refilled =
     ex_meal_killed
       \<lparr>food := [ex_item 2 1500 1500 1, ex_item 3 774 774 1, ex_item 4 100 100 1,
                 ex_item 5 48 48 1],
        nextFoodId := 6, rngPos := 14\<rparr>"

definition ex_R :: "nat \<Rightarrow> real" where
  "ex_R n = (if n < 8 then [1 / 2, 1 / 2, 0, 0, 1 / 4, 1 / 4, 0, 0] ! n else 0)"

text \<open>
  The short worm with heading 0 after it was sent the angle \<open>268435457.62750757\<close>, the
  binary64 value \<open>302231456736067912204288 * 2^(-50)\<close>.
\<close>

definition ex_spinner :: worm where
  "ex_spinner = ex_eater\<lparr>targetAngle := scaled 302231456736067912204288\<rparr>"

text \<open>
  The world of the short worm with a single food item of the speed-boost type in reach,
  and the state after the worm has eaten it at time 0.
\<close>

definition ex_power_meal :: world where
  "ex_power_meal = ex_meal\<lparr>food := [ex_item 0 100 110 FOOD_TYPE_POWER]\<rparr>"

definition ex_power_eaten :: world where
  "ex_power_eaten =
     \<lparr>players = [(''p1'', \<lparr>pid = ''p1'', pname = ''Ann'', isBot = False,
                          pworm = Some (ex_eater\<lparr>score := 5, hasSpeedBoost := True,
                                                 speedBoostEndTime := 10000\<rparr>)\<rparr>)],
      food = [ex_item 2 1500 1500 1],
      eatenFoodThisTick = [\<lparr>eid = 0, eaterId = ''p1'', etype = FOOD_TYPE_POWER\<rparr>],
      nextFoodId = 3, nextBotId = 0, rngPos = 4\<rparr>"

section \<open>Properties of the input handler\<close>

lemma map_of_update_players:
  "map_of (map (\<lambda>(k', p). if k' = k then (k', g p) else (k', p)) ps) k'' =
     (if k'' = k then map_option g (map_of ps k'') else map_of ps k'')"
  by (induction ps) auto

lemma worm_of_update_worm_of:
  "worm_of (update_worm_of k f w) k' =
     (if k' = k then map_option f (worm_of w k') else worm_of w k')"
  by (auto simp: worm_of_def update_worm_of_def map_of_update_players
           split: option.splits)

lemma ex_worm_of: "worm_of ex_world ''p1'' = Some ex_worm"
  by (simp add: worm_of_def ex_world_def ex_player_def)

text \<open>
  Claim C9. The playerInput handler stores a finite numeric angle as the worm's desired
  heading exactly as received, whatever its sign or size, when the worm is alive. When
  the socket has no living worm, the payload is falsy, or its angle is not a finite
  number, the event changes nothing.
\<close>

theorem playerInput_raw_angle:
  "(worm_of w sid = Some wm \<and> isAlive wm \<longrightarrow>
        worm_of (playerInput sid (Data (JNum (DFin a))) w) sid
          = Some (wm\<lparr>targetAngle := DFin a\<rparr>))
   \<and> ((\<forall>wm'. worm_of w sid = Some wm' \<longrightarrow> \<not> isAlive wm')
        \<or> d = Falsy \<or> (\<exists>v. d = Data v \<and> finiteValue v = None) \<longrightarrow>
        playerInput sid d w = w)"
  by (cases d)
     (auto simp: playerInput_def worm_of_def update_worm_of_def map_of_update_players
           split: option.splits jsval.splits double.splits)

theorem playerInput_raw_angle_witness:
  "worm_of (playerInput ''p1'' (Data (JNum (DFin (- 7 * 2 ^ 1074)))) ex_world) ''p1''
     = Some (ex_worm\<lparr>targetAngle := DFin (- 7 * 2 ^ 1074)\<rparr>)
   \<and> playerInput ''p1'' (Data (JNum DNaN)) ex_world = ex_world
   \<and> playerInput ''p1'' (Data (JStr ''1'')) ex_world = ex_world"
  using playerInput_raw_angle [of ex_world "''p1''" ex_worm "- 7 * 2 ^ 1074" "Data (JNum DNaN)"]
        playerInput_raw_angle [of ex_world "''p1''" ex_worm "- 7 * 2 ^ 1074"
          "Data (JStr ''1'')"]
        ex_worm_of
  by (simp add: ex_worm_def)

section \<open>Properties of the double-precision angle loops\<close>

lemma width_bounds: "2 ^ p \<le> n \<Longrightarrow> n < 2 ^ Suc p \<Longrightarrow> width n = Suc p"
proof (induction p arbitrary: n)
  case 0
  then have "n = 1" by simp
  then show ?case by (simp add: width.simps)
next
  case (Suc p)
  have "2 ^ p \<le> n div 2" using Suc.prems by simp
  moreover have "n div 2 < 2 ^ Suc p" using Suc.prems by simp
  ultimately have "width (n div 2) = Suc p" by (rule Suc.IH)
  moreover have "n \<noteq> 0" using Suc.prems by auto
  ultimately show ?case by (subst width.simps) simp
qed

lemma roundUnits_up:
  assumes "0 \<le> n" and "nat n = a" and "width a - 53 = k"
    and "a div 2 ^ k = q" and "a mod 2 ^ k = r" and "2 ^ k < 2 * r"
    and "(q + 1) * 2 ^ k < OVERFLOW_UNITS"
  shows "roundUnits n = DFin (int ((q + 1) * 2 ^ k))"
proof -
  have a: "nat \<bar>n\<bar> = a" using assms(1,2) by simp
  have neg: "\<not> n < 0" using assms(1) by simp
  show ?thesis
    unfolding roundUnits_def a Let_def assms(3) assms(4) assms(5)
    using assms(6,7) neg by simp
qed

lemma roundUnits_same:
  assumes "0 \<le> n" and "nat n = a" and "width a - 53 = k"
    and "a mod 2 ^ k = 0" and "a < OVERFLOW_UNITS"
  shows "roundUnits n = DFin n"
proof -
  have a: "nat \<bar>n\<bar> = a" using assms(1,2) by simp
  have neg: "\<not> n < 0" using assms(1) by simp
  have recomp: "a div 2 ^ k * 2 ^ k = a"
    using assms(4) by (metis add.right_neutral div_mult_mod_eq)
  have n: "int a = n" using assms(1,2) by simp
  have "roundUnits n = DFin (int (a div 2 ^ k * 2 ^ k))"
    unfolding roundUnits_def a Let_def assms(3) assms(4)
    using assms(5) neg recomp by simp
  then show ?thesis by (simp only: recomp n)
qed

lemma round_absorbs:
  fixes e c :: nat
  assumes e: "54 \<le> e" "e < 2098" and c: "0 < c" "2 * c < 2 ^ (e - 53)"
  shows "roundUnits (2 ^ e - int c) = DFin (2 ^ e)"
proof -
  define k where "k = e - 53"
  define r where "r = 2 ^ k - c"
  define a where "a = (2 ^ e - c :: nat)"
  have k1: "1 \<le> k" using e by (simp add: k_def)
  have ek: "e = 53 + k" using e by (simp add: k_def)
  have ck: "c < 2 ^ k" using c by (simp add: k_def)
  have pe: "(2::nat) ^ e = 2 ^ 53 * 2 ^ k" by (simp add: ek power_add)
  have split: "a = (2 ^ 53 - 1) * 2 ^ k + r"
  proof -
    have "(2 ^ 53 - 1) * 2 ^ k + r = (2 ^ 53 * 2 ^ k - 2 ^ k) + (2 ^ k - c)"
      by (simp add: r_def diff_mult_distrib)
    also have "\<dots> = 2 ^ 53 * 2 ^ k - c"
      using ck by simp
    finally show ?thesis by (simp add: a_def pe)
  qed
  have r_lt: "r < 2 ^ k" using c(1) ck by (simp add: r_def)
  have q: "a div 2 ^ k = 2 ^ 53 - 1"
    unfolding split using r_lt by simp
  have m: "a mod 2 ^ k = r"
    unfolding split using r_lt by simp
  have tie: "2 ^ k < 2 * r"
    using c(2) ck by (simp add: r_def k_def)
  have half: "(2::nat) ^ e = 2 * 2 ^ (e - 1)"
    using e by (cases e) simp_all
  have chalf: "c < 2 ^ (e - 1)"
  proof -
    have "(2::nat) ^ k \<le> 2 ^ (e - 1)"
      by (rule power_increasing) (simp_all add: k_def)
    with ck show ?thesis by (rule less_le_trans)
  qed
  have lo: "2 ^ (e - 1) \<le> a"
    using half chalf by (simp add: a_def)
  have hi: "a < 2 ^ e" using c(1) by (simp add: a_def)
  have w: "width a = e"
  proof -
    have "width a = Suc (e - 1)"
      by (rule width_bounds) (use lo hi e in simp_all)
    then show ?thesis using e by simp
  qed
  have cle: "c \<le> 2 ^ e" using half chalf by simp
  have conv: "2 ^ e - int c = int a"
    using cle by (simp add: a_def of_nat_diff)
  have n0: "0 \<le> 2 ^ e - int c" unfolding conv by simp
  have na: "nat (2 ^ e - int c) = a" unfolding conv by simp
  have fits: "(2 ^ 53 - 1 + 1) * 2 ^ k < OVERFLOW_UNITS"
  proof -
    have "(2::nat) ^ e < 2 ^ 2098"
      by (rule power_strict_increasing) (use e in simp_all)
    then show ?thesis unfolding OVERFLOW_UNITS_def pe by simp
  qed
  have "roundUnits (2 ^ e - int c) = DFin (int ((2 ^ 53 - 1 + 1) * 2 ^ k))"
    by (rule roundUnits_up [OF n0 na _ q m tie fits]) (simp add: w k_def)
  moreover have "(2::int) ^ e = 2 ^ 53 * 2 ^ k"
    by (simp add: ek power_add)
  ultimately show ?thesis by simp
qed

lemma round_power:
  fixes e :: nat
  assumes e: "e < 2098"
  shows "roundUnits (2 ^ e) = DFin (2 ^ e)"
proof -
  have w: "width (2 ^ e) = Suc e"
    by (rule width_bounds) simp_all
  have "(2::nat) ^ e mod 2 ^ (Suc e - 53) = 0"
  proof (cases "e < 53")
    case True
    then show ?thesis by simp
  next
    case False
    then have "e = 52 + (Suc e - 53)" by simp
    then have "(2::nat) ^ e = 2 ^ (52 + (Suc e - 53))" by simp
    also have "\<dots> = 2 ^ 52 * 2 ^ (Suc e - 53)" by (rule power_add)
    finally show ?thesis by simp
  qed
  moreover have "(2::nat) ^ e < OVERFLOW_UNITS"
    unfolding OVERFLOW_UNITS_def
    by (rule power_strict_increasing) (use e in simp_all)
  ultimately show ?thesis
    by (intro roundUnits_same [where a = "2 ^ e" and k = "Suc e - 53"])
       (simp_all add: w nat_power_eq)
qed

lemma two_pi_units_bound: "(7074237752028440::nat) * 2 ^ 1024 < 2 ^ 1077"
proof -
  have "(7074237752028440::nat) * 2 ^ 1024 < 2 ^ 53 * 2 ^ 1024"
    by (intro mult_strict_right_mono) simp_all
  also have "\<dots> = 2 ^ 1077" by (simp flip: power_add)
  finally show ?thesis .
qed

lemma dsub_two_pi_absorbed:
  assumes "1131 \<le> E" and "E < 2098"
  shows "dsub (DFin (2 ^ E)) TWO_PI = DFin (2 ^ E)"
proof -
  define c :: nat where "c = 7074237752028440 * 2 ^ 1024"
  have c0: "0 < c" by (simp add: c_def)
  have "2 * c < 2 * 2 ^ 1077"
    using two_pi_units_bound by (simp add: c_def)
  also have "(2::nat) * 2 ^ 1077 = 2 ^ 1078" by simp
  also have "(2::nat) ^ 1078 \<le> 2 ^ (E - 53)"
    by (rule power_increasing) (use assms in simp_all)
  finally have small: "2 * c < 2 ^ (E - 53)" .
  have "roundUnits (2 ^ E - int c) = DFin (2 ^ E)"
    by (rule round_absorbs) (use assms c0 small in simp_all)
  moreover have "dsub (DFin (2 ^ E)) TWO_PI = roundUnits (2 ^ E - int c)"
    by (simp add: dsub_def TWO_PI_def c_def)
  ultimately show ?thesis by simp
qed

lemma dsub_zero_power:
  assumes "E < 2098"
  shows "dsub (DFin (2 ^ E)) (DFin 0) = DFin (2 ^ E)"
  using round_power [OF assms] by (simp add: dsub_def)

lemma power_above_pi:
  assumes "1131 \<le> E"
  shows "dgt (DFin (2 ^ E)) MATH_PI" and "\<not> dle (DFin (2 ^ E)) (dneg MATH_PI)"
proof -
  have "(7074237752028440::int) * 2 ^ 1023 < 2 ^ 53 * 2 ^ 1023"
    by (intro mult_strict_right_mono) simp_all
  also have "\<dots> = 2 ^ 1076" by (simp flip: power_add)
  also have "\<dots> \<le> 2 ^ E"
    by (rule power_increasing) (use assms in simp_all)
  finally have above: "(7074237752028440::int) * 2 ^ 1023 < 2 ^ E" .
  then show "dgt (DFin (2 ^ E)) MATH_PI"
    by (simp add: dgt_def MATH_PI_def)
  have "- (7074237752028440 * 2 ^ 1023) < (0::int)" by simp
  also have "(0::int) < 2 ^ E" by simp
  finally show "\<not> dle (DFin (2 ^ E)) (dneg MATH_PI)"
    by (simp add: MATH_PI_def)
qed

lemma lowerAngleD_stuck:
  assumes "1131 \<le> E" and "E < 2098"
  shows "lowerAngleD (DFin (2 ^ E)) = None"
proof (cases "lowerAngleD (DFin (2 ^ E))")
  case None
  then show ?thesis .
next
  case (Some y)
  have "DFin (2 ^ E) \<noteq> DFin (2 ^ E)"
  proof (rule lowerAngleD.raw_induct [where P = "\<lambda>d z. d \<noteq> DFin (2 ^ E)", OF _ Some])
    fix f d z
    assume IH: "\<And>x y. f x = Some y \<Longrightarrow> x \<noteq> DFin (2 ^ E)"
      and body: "(if dgt d MATH_PI then f (dsub d TWO_PI) else Some d) = Some z"
    show "d \<noteq> DFin (2 ^ E)"
    proof
      assume d: "d = DFin (2 ^ E)"
      from body have "f (DFin (2 ^ E)) = Some z"
        unfolding d dsub_two_pi_absorbed [OF assms]
        using power_above_pi(1) [OF assms(1)] by simp
      then show False using IH by blast
    qed
  qed
  then show ?thesis by simp
qed

lemma raiseAngleD_pass:
  assumes "1131 \<le> E"
  shows "raiseAngleD (DFin (2 ^ E)) = Some (DFin (2 ^ E))"
  using power_above_pi(2) [OF assms] by (subst raiseAngleD.simps) simp

text \<open>
  Claim C10, at the inputs where the source breaks it. A player may send any finite
  angle, for instance \<open>2^60\<close> (\<open>E = 1134\<close>). For every power of two from \<open>2^57\<close> up to
  the largest one (\<open>1131 \<le> E < 2098\<close> in units of \<open>2^(-1074)\<close>) held as desired heading by a
  worm with heading 0, subtracting \<open>2\<pi>\<close> rounds back to the same number, so the second
  loop of the movement update never ends.
\<close>

theorem angle_loop_never_returns:
  assumes "1131 \<le> E" and "E < 2098"
  shows "angleDiffD (DFin (2 ^ E)) (DFin 0) = None"
  unfolding angleDiffD_def dsub_zero_power [OF assms(2)] raiseAngleD_pass [OF assms(1)]
  using lowerAngleD_stuck [OF assms] by simp

theorem angle_loop_never_returns_witness:
  "angleDiffD (DFin (2 ^ 1134)) (DFin 0) = None"
  using angle_loop_never_returns [of 1134] by simp

text \<open>
  With it the movement update of a living worm in this state has no result.
\<close>

lemma updateWorm_never_returns:
  assumes "1131 \<le> E" and "E < 2098" and "isAlive wm" and "segments wm \<noteq> []"
    and "angle wm = DFin 0" and "targetAngle wm = DFin (2 ^ E)"
  shows "updateWorm now wm = None"
proof -
  have "angleDiffD (DFin (2 ^ E)) (DFin 0) = None"
    unfolding angleDiffD_def dsub_zero_power [OF assms(2)] raiseAngleD_pass [OF assms(1)]
    using lowerAngleD_stuck [OF assms(1,2)] by simp
  then have "turnedAngle wm = None"
    using assms(5,6) by (simp add: turnedAngle_def)
  then show ?thesis
    using assms(3,4) by (cases "segments wm") (simp_all add: updateWorm_def)
qed

section \<open>Properties of rounding within a binade\<close>

lemma width_le: "n < 2 ^ p \<Longrightarrow> width n \<le> p"
proof (induction p arbitrary: n)
  case 0
  then show ?case by (simp add: width.simps)
next
  case (Suc p)
  have "n div 2 < 2 ^ p" using Suc.prems by simp
  then have "width (n div 2) \<le> p" by (rule Suc.IH)
  then show ?case by (subst width.simps) simp
qed

lemma roundUnits_neg: "roundUnits (- n) = dneg (roundUnits n)"
proof (cases "n = 0")
  case True
  have "(0::nat) < 2 ^ 2098" by simp
  then show ?thesis
    unfolding True OVERFLOW_UNITS_def roundUnits_def Let_def by (simp add: width.simps)
next
  case False
  then show ?thesis by (auto simp: roundUnits_def Let_def)
qed

lemma round_grid:
  fixes y q r s :: nat
  assumes lo: "2 ^ (s + 52) \<le> y" and hi: "y < 2 ^ (s + 53)"
    and y: "y = q * 2 ^ s + r" and r: "r < 2 ^ s" and s: "s + 53 < 2098"
  shows "roundUnits (int y) =
           DFin (int ((if 2 ^ s < 2 * r \<or> (2 * r = 2 ^ s \<and> odd q) then q + 1 else q) * 2 ^ s))"
proof -
  have "y < 2 ^ Suc (s + 52)" using hi by (simp add: add.commute)
  with lo have "width y = Suc (s + 52)" by (rule width_bounds)
  then have w: "width y = s + 53" by simp
  have q: "y div 2 ^ s = q" unfolding y using r by simp
  have m: "y mod 2 ^ s = r" unfolding y using r by simp
  have "q * 2 ^ s \<le> y" using y by simp
  also note hi
  also have "(2::nat) ^ (s + 53) = 2 ^ 53 * 2 ^ s"
    by (simp only: power_add mult.commute)
  finally have qlt: "q < 2 ^ 53"
    unfolding mult_less_cancel2 by blast
  have "(q + 1) * 2 ^ s \<le> 2 ^ 53 * 2 ^ s"
    using qlt by (intro mult_right_mono) simp_all
  also have "\<dots> = 2 ^ (s + 53)" by (simp only: power_add mult.commute)
  also have "\<dots> < 2 ^ 2098"
    by (rule power_strict_increasing) (use s in simp_all)
  finally have fit1: "(q + 1) * 2 ^ s < OVERFLOW_UNITS"
    by (simp add: OVERFLOW_UNITS_def)
  then have fit0: "q * 2 ^ s < OVERFLOW_UNITS" by simp
  have a: "nat \<bar>int y\<bar> = y" by simp
  show ?thesis
    unfolding roundUnits_def a Let_def w
    using q m fit0 fit1 by (simp add: not_le)
qed

lemma round_scaled:
  fixes Y q r t :: nat
  assumes lo: "2 ^ (t + 52) \<le> Y" and hi: "Y < 2 ^ (t + 53)"
    and Y: "Y = q * 2 ^ t + r" and r: "r < 2 ^ t" and t: "t < 1000"
  shows "roundUnits (int Y * 2 ^ 1024) =
           scaled (int ((if 2 ^ t < 2 * r \<or> (2 * r = 2 ^ t \<and> odd q) then q + 1 else q) * 2 ^ t))"
proof -
  define U :: nat where "U = 2 ^ 1024"
  define s where "s = t + 1024"
  have U0: "0 < U" by (simp add: U_def)
  have ps: "\<And>j. (2::nat) ^ (s + j) = 2 ^ (t + j) * U"
    by (simp add: s_def U_def power_add)
  have ps0: "(2::nat) ^ s = 2 ^ t * U"
    by (simp add: s_def U_def power_add)
  have 1: "2 ^ (s + 52) \<le> Y * U"
    unfolding ps using lo by simp
  have 2: "Y * U < 2 ^ (s + 53)"
    unfolding ps using hi U0 by simp
  have 3: "Y * U = q * 2 ^ s + r * U"
    unfolding ps0 Y by (simp add: algebra_simps)
  have 4: "r * U < 2 ^ s"
    unfolding ps0 using r U0 by simp
  have 5: "s + 53 < 2098" using t by (simp add: s_def)
  have c1: "(2 ^ t * U < 2 * (r * U)) = (2 ^ t < 2 * r)"
    using U0 by (simp add: mult.assoc [symmetric])
  have c2: "(2 * (r * U) = 2 ^ t * U) = (2 * r = 2 ^ t)"
    using U0 by (simp add: mult.assoc [symmetric])
  have "roundUnits (int (Y * U)) =
          DFin (int ((if 2 ^ s < 2 * (r * U) \<or> (2 * (r * U) = 2 ^ s \<and> odd q) then q + 1 else q)
                      * 2 ^ s))"
    by (rule round_grid [OF 1 2 3 4 5])
  then have "roundUnits (int (Y * U)) =
          DFin (int ((if 2 ^ t < 2 * r \<or> (2 * r = 2 ^ t \<and> odd q) then q + 1 else q)
                      * 2 ^ t * U))"
    unfolding ps0 c1 c2 by (simp only: mult.assoc)
  moreover have "int (Y * U) = int Y * 2 ^ 1024" by (simp add: U_def)
  moreover have "\<And>z. int (z * U) = int z * 2 ^ 1024" by (simp add: U_def)
  ultimately show ?thesis by (simp only: scaled_def)
qed

lemma round_exact:
  fixes m t :: nat
  assumes m: "m < 2 ^ 53" and t: "t < 1000"
  shows "roundUnits (int (m * 2 ^ t) * 2 ^ 1024) = scaled (int (m * 2 ^ t))"
proof -
  define a :: nat where "a = m * 2 ^ t * 2 ^ 1024"
  have a2: "a = m * 2 ^ (t + 1024)" by (simp add: a_def power_add)
  have "a < 2 ^ 53 * 2 ^ (t + 1024)"
    unfolding a2 using m by simp
  also have "\<dots> = 2 ^ (53 + (t + 1024))" by (simp only: power_add)
  finally have alt: "a < 2 ^ (53 + (t + 1024))" .
  then have "width a \<le> 53 + (t + 1024)" by (rule width_le)
  then have kle: "width a - 53 \<le> t + 1024" by simp
  have "(2::nat) ^ (width a - 53) dvd 2 ^ (t + 1024)"
    using kle by (rule le_imp_power_dvd)
  then have "2 ^ (width a - 53) dvd a" unfolding a2 by (rule dvd_mult)
  then have md: "a mod 2 ^ (width a - 53) = 0" by simp
  have "(2::nat) ^ (53 + (t + 1024)) < 2 ^ 2098"
    by (rule power_strict_increasing) (use t in simp_all)
  with alt have fit: "a < OVERFLOW_UNITS" by (simp add: OVERFLOW_UNITS_def)
  have ia: "int (m * 2 ^ t) * 2 ^ 1024 = int a" by (simp add: a_def)
  have "roundUnits (int a) = DFin (int a)"
    by (rule roundUnits_same [where a = a and k = "width a - 53"]) (use md fit in simp_all)
  then show ?thesis unfolding scaled_def ia .
qed

lemma round_scaled_int:
  fixes Y q r :: int and t :: nat
  assumes lo: "2 ^ (t + 52) \<le> Y" and hi: "Y < 2 ^ (t + 53)"
    and Y: "Y = q * 2 ^ t + r" and r0: "0 \<le> r" and r: "r < 2 ^ t" and t: "t < 1000"
  shows "roundUnits (Y * 2 ^ 1024) =
           scaled ((if 2 ^ t < 2 * r \<or> (2 * r = 2 ^ t \<and> odd q) then q + 1 else q) * 2 ^ t)"
proof -
  have Y0: "0 \<le> Y"
  proof -
    have "(0::int) \<le> 2 ^ (t + 52)" by simp
    also note lo
    finally show ?thesis .
  qed
  have q0: "0 \<le> q"
  proof (rule ccontr)
    assume "\<not> 0 \<le> q"
    then have "q \<le> - 1" by simp
    then have "q * 2 ^ t \<le> (- 1) * 2 ^ t"
      by (intro mult_right_mono) simp_all
    with Y r have "Y < 0" by simp
    with Y0 show False by simp
  qed
  have nlo: "2 ^ (t + 52) \<le> nat Y"
    using lo by (simp add: le_nat_iff)
  have nhi: "nat Y < 2 ^ (t + 53)"
    using hi Y0 by (simp add: nat_less_iff)
  have nY: "nat Y = nat q * 2 ^ t + nat r"
    using Y q0 r0 by (simp add: nat_add_distrib nat_mult_distrib nat_power_eq)
  have nr: "nat r < 2 ^ t"
    using r r0 by (simp add: nat_less_iff)
  have c1: "((2::nat) ^ t < 2 * nat r) = (2 ^ t < 2 * r)"
  proof -
    have "((2::nat) ^ t < 2 * nat r) = (int (2 ^ t) < int (2 * nat r))"
      by (simp only: of_nat_less_iff)
    also have "\<dots> = (2 ^ t < 2 * r)" using r0 by simp
    finally show ?thesis .
  qed
  have c2: "(2 * nat r = (2::nat) ^ t) = (2 * r = 2 ^ t)"
  proof -
    have "(2 * nat r = (2::nat) ^ t) = (int (2 * nat r) = int (2 ^ t))"
      by (simp only: of_nat_eq_iff)
    also have "\<dots> = (2 * r = 2 ^ t)" using r0 by simp
    finally show ?thesis .
  qed
  have c3: "odd (nat q) = odd q"
    using q0 by (simp add: even_nat_iff)
  have R: "roundUnits (int (nat Y) * 2 ^ 1024) =
          scaled (int ((if 2 ^ t < 2 * nat r \<or> (2 * nat r = 2 ^ t \<and> odd (nat q))
                        then nat q + 1 else nat q) * 2 ^ t))"
    by (rule round_scaled [OF nlo nhi nY nr t])
  have e1: "int (nat Y) = Y" using Y0 by simp
  have e2: "\<And>C. int ((if C then nat q + 1 else nat q) * 2 ^ t) = (if C then q + 1 else q) * 2 ^ t"
    using q0 by simp
  show ?thesis
    using R unfolding c1 c2 c3 e1 e2 .
qed

lemma TWO_PI_scaled: "TWO_PI = scaled 7074237752028440"
  by (simp add: TWO_PI_def scaled_def)

lemma MATH_PI_scaled: "MATH_PI = scaled 3537118876014220"
  by (simp add: MATH_PI_def scaled_def)

lemma dsub_scaled: "dsub (scaled a) (scaled b) = roundUnits ((a - b) * 2 ^ 1024)"
  by (simp add: dsub_def scaled_def algebra_simps)

lemma dadd_scaled: "dadd (scaled a) (scaled b) = roundUnits ((a + b) * 2 ^ 1024)"
  by (simp add: scaled_def algebra_simps)

lemma dle_scaled: "dle (scaled a) (scaled b) = (a \<le> b)"
  by (simp add: scaled_def)

lemma dgt_scaled: "dgt (scaled a) (scaled b) = (b < a)"
  by (auto simp: dgt_def scaled_def)

lemma dneg_scaled: "dneg (scaled a) = scaled (- a)"
  by (simp add: scaled_def)

lemma lower_stop:
  "x \<le> 3537118876014220 \<Longrightarrow> lowerAngleD (scaled x) = Some (scaled x)"
  by (subst lowerAngleD.simps) (simp add: MATH_PI_scaled dgt_scaled)

lemma lower_unfold:
  assumes "3537118876014220 < x"
    and "roundUnits ((x - 7074237752028440) * 2 ^ 1024) = scaled x'"
  shows "lowerAngleD (scaled x) = lowerAngleD (scaled x')"
  using assms
  by (subst lowerAngleD.simps) (simp add: MATH_PI_scaled TWO_PI_scaled dgt_scaled dsub_scaled)

lemma lower_step:
  fixes x x' q r :: int and t :: nat
  assumes "3537118876014220 < x"
    and "x - 7074237752028440 = q * 2 ^ t + r" and "0 \<le> r" and "r < 2 ^ t"
    and "2 ^ (t + 52) \<le> x - 7074237752028440" and "x - 7074237752028440 < 2 ^ (t + 53)"
    and "t < 1000"
    and "x' = (if 2 ^ t < 2 * r \<or> (2 * r = 2 ^ t \<and> odd q) then q + 1 else q) * 2 ^ t"
  shows "lowerAngleD (scaled x) = lowerAngleD (scaled x')"
  using assms(1)
proof (rule lower_unfold)
  show "roundUnits ((x - 7074237752028440) * 2 ^ 1024) = scaled x'"
    unfolding assms(8)
    by (rule round_scaled_int [OF assms(5) assms(6) assms(2) assms(3) assms(4) assms(7)])
qed

lemma lower_step_exact:
  fixes x :: int
  assumes "3537118876014220 < x" and "7074237752028440 \<le> x"
    and "x - 7074237752028440 < 2 ^ 53"
  shows "lowerAngleD (scaled x) = lowerAngleD (scaled (x - 7074237752028440))"
  using assms(1)
proof (rule lower_unfold)
  define m where "m = nat (x - 7074237752028440)"
  have m: "m < 2 ^ 53" using assms(3) by (simp add: m_def nat_less_iff)
  have im: "int (m * 2 ^ 0) = x - 7074237752028440"
    using assms(2) by (simp add: m_def)
  have "roundUnits (int (m * 2 ^ 0) * 2 ^ 1024) = scaled (int (m * 2 ^ 0))"
    by (rule round_exact [OF m]) simp
  then show "roundUnits ((x - 7074237752028440) * 2 ^ 1024) = scaled (x - 7074237752028440)"
    unfolding im .
qed

lemma dsub_grid:
  fixes x' d :: int and t :: nat
  assumes grid: "2 ^ t dvd x'" and near: "2 * \<bar>d\<bar> < 2 ^ t"
    and lo: "2 ^ (t + 52) < x'" and hi: "x' + d < 2 ^ (t + 53)" and t: "t < 1000"
  shows "roundUnits ((x' + d) * 2 ^ 1024) = scaled x'"
proof -
  from grid obtain k where k: "x' = 2 ^ t * k" by (rule dvdE)
  have p: "(2::int) ^ (t + 52) = 2 ^ t * 2 ^ 52" by (simp only: power_add)
  have "(2::int) ^ t * 2 ^ 52 < 2 ^ t * k" using lo unfolding k p .
  then have "2 ^ 52 < k" by simp
  then have k1: "2 ^ 52 + 1 \<le> k" by simp
  have step: "2 ^ (t + 52) + 2 ^ t \<le> x'"
  proof -
    have "(2::int) ^ t * (2 ^ 52 + 1) \<le> 2 ^ t * k"
      using k1 by (intro mult_left_mono) simp_all
    then show ?thesis unfolding k p by (simp add: algebra_simps)
  qed
  show ?thesis
  proof (cases "0 \<le> d")
    case True
    have a: "2 ^ (t + 52) \<le> x' + d" using lo True by simp
    have b: "x' + d = k * 2 ^ t + d" by (simp add: k)
    have c: "d < 2 ^ t" using near True by simp
    have R: "roundUnits ((x' + d) * 2 ^ 1024) =
            scaled ((if 2 ^ t < 2 * d \<or> (2 * d = 2 ^ t \<and> odd k) then k + 1 else k) * 2 ^ t)"
      by (rule round_scaled_int [OF a hi b True c t])
    have "\<not> 2 ^ t < 2 * d" and "2 * d \<noteq> 2 ^ t" using near True by simp_all
    then have "(if 2 ^ t < 2 * d \<or> (2 * d = 2 ^ t \<and> odd k) then k + 1 else k) * 2 ^ t = x'"
      by (simp add: k)
    with R show ?thesis by (simp only:)
  next
    case False
    define r where "r = 2 ^ t + d"
    have r0: "0 \<le> r" using near False by (simp add: r_def)
    have rt: "r < 2 ^ t" using False by (simp add: r_def)
    have a: "2 ^ (t + 52) \<le> x' + d" using step near False by simp
    have b: "x' + d = (k - 1) * 2 ^ t + r" by (simp add: k r_def algebra_simps)
    have R: "roundUnits ((x' + d) * 2 ^ 1024) =
            scaled ((if 2 ^ t < 2 * r \<or> (2 * r = 2 ^ t \<and> odd (k - 1)) then k - 1 + 1 else k - 1)
                      * 2 ^ t)"
      by (rule round_scaled_int [OF a hi b r0 rt t])
    have "2 ^ t < 2 * r" using near False by (simp add: r_def)
    then have "(if 2 ^ t < 2 * r \<or> (2 * r = 2 ^ t \<and> odd (k - 1)) then k - 1 + 1 else k - 1)
                 * 2 ^ t = x'"
      by (simp add: k)
    with R show ?thesis by (simp only:)
  qed
qed

lemma lower_run:
  fixes x c :: int and n t :: nat
  assumes grid: "2 ^ t dvd x" "2 ^ t dvd c"
    and near: "2 * \<bar>c - 7074237752028440\<bar> < 2 ^ t"
    and hi: "x < 2 ^ (t + 53)" and c: "0 < c" and t: "t < 1000"
    and lo: "2 ^ (t + 52) < x - int n * c"
  shows "lowerAngleD (scaled x) = lowerAngleD (scaled (x - int n * c))"
  using lo
proof (induction n)
  case 0
  show ?case by simp
next
  case (Suc n)
  let ?x = "x - int n * c"
  let ?x' = "x - int (Suc n) * c"
  have x': "?x' = ?x - c" by (simp add: algebra_simps)
  have lo': "2 ^ (t + 52) < ?x'" using Suc.prems .
  then have lo_n: "2 ^ (t + 52) < ?x" using c unfolding x' by simp
  have IH: "lowerAngleD (scaled x) = lowerAngleD (scaled ?x)"
    using lo_n by (rule Suc.IH)
  have g: "2 ^ t dvd ?x'"
    using grid by (simp add: dvd_diff)
  have "0 \<le> int n * c" using c by simp
  then have xle: "?x \<le> x" by simp
  have d: "?x - 7074237752028440 = ?x' + (c - 7074237752028440)"
    unfolding x' by simp
  have h: "?x' + (c - 7074237752028440) < 2 ^ (t + 53)"
    using xle hi unfolding d [symmetric] by simp
  have big: "(3537118876014220::int) < 2 ^ 52" by simp
  also have "(2::int) ^ 52 \<le> 2 ^ (t + 52)" by (rule power_increasing) simp_all
  also note lo_n
  finally have above: "3537118876014220 < ?x" .
  have "roundUnits ((?x - 7074237752028440) * 2 ^ 1024) = scaled ?x'"
    unfolding d by (rule dsub_grid [OF g near lo' h t])
  with above have "lowerAngleD (scaled ?x) = lowerAngleD (scaled ?x')"
    by (rule lower_unfold)
  with IH show ?case by simp
qed

section \<open>Properties of the movement update\<close>

lemma roundUnits_zero: "roundUnits 0 = DFin 0"
proof -
  have "(0::nat) < 2 ^ 2098" by simp
  then show ?thesis
    unfolding OVERFLOW_UNITS_def roundUnits_def Let_def by (simp add: width.simps)
qed

lemma scaled_zero: "scaled 0 = DFin 0"
  by (simp add: scaled_def)

lemma round_exact_int:
  fixes n :: int and m t :: nat
  assumes n: "\<bar>n\<bar> = int (m * 2 ^ t)" and m: "m < 2 ^ 53" and t: "t < 1000"
  shows "roundUnits (n * 2 ^ 1024) = scaled n"
proof (cases "0 \<le> n")
  case True
  then have "n = int (m * 2 ^ t)" using n by simp
  then show ?thesis using round_exact [OF m t] by simp
next
  case False
  then have neg: "- n = int (m * 2 ^ t)" using n by simp
  have "roundUnits (n * 2 ^ 1024) = roundUnits (- (- n * 2 ^ 1024))" by simp
  also have "\<dots> = dneg (roundUnits (- n * 2 ^ 1024))" by (rule roundUnits_neg)
  also have "roundUnits (- n * 2 ^ 1024) = scaled (- n)"
    unfolding neg by (rule round_exact [OF m t])
  also have "dneg (scaled (- n)) = scaled n" by (simp add: dneg_scaled)
  finally show ?thesis .
qed

lemma abs_scaled_units: "\<bar>a * 2 ^ 1024\<bar> = \<bar>a\<bar> * (2 ^ 1024 :: int)"
proof -
  have "\<bar>(2::int) ^ 1024\<bar> = 2 ^ 1024" by (rule abs_of_nonneg) (rule zero_le_power, simp)
  then show ?thesis by (simp only: abs_mult)
qed

lemma dabs_scaled: "dabs (scaled a) = scaled \<bar>a\<bar>"
  unfolding scaled_def dabs.simps abs_scaled_units ..

lemma drem_scaled:
  assumes "b \<noteq> 0"
  shows "drem (scaled a) (scaled b) = scaled (sgn a * (\<bar>a\<bar> mod \<bar>b\<bar>))"
proof -
  define U :: int where "U = 2 ^ 1024"
  have U: "0 < U" by (simp add: U_def)
  have m: "\<bar>a * U\<bar> mod \<bar>b * U\<bar> = (\<bar>a\<bar> mod \<bar>b\<bar>) * U"
    unfolding U_def abs_scaled_units by (rule mod_mult_mult2)
  have s: "sgn (a * U) = sgn a"
    using U by (simp add: sgn_mult)
  have nz: "b * U \<noteq> 0" using assms U by simp
  have "drem (DFin (a * U)) (DFin (b * U)) = DFin (sgn a * (\<bar>a\<bar> mod \<bar>b\<bar>) * U)"
    using nz by (simp only: drem.simps m s if_False mult.assoc)
  then show ?thesis by (simp only: scaled_def U_def)
qed

lemma toReal_scaled: "toReal (scaled n) = Some (of_int n / 2 ^ 50)"
proof -
  have "(2::real) ^ 1074 = 2 ^ 1024 * 2 ^ 50" by (simp flip: power_add)
  then show ?thesis by (simp add: scaled_def)
qed

lemma raise_stop:
  "- 3537118876014220 < x \<Longrightarrow> raiseAngleD (scaled x) = Some (scaled x)"
  by (subst raiseAngleD.simps) (simp add: MATH_PI_scaled dneg_scaled dle_scaled)

lemma raise_unfold:
  assumes "x \<le> - 3537118876014220"
    and "roundUnits ((x + 7074237752028440) * 2 ^ 1024) = scaled x'"
  shows "raiseAngleD (scaled x) = raiseAngleD (scaled x')"
  using assms
  by (subst raiseAngleD.simps)
     (simp add: MATH_PI_scaled TWO_PI_scaled dneg_scaled dle_scaled dadd_scaled)

lemma turn_speed_above: "x < 2 ^ 40 \<Longrightarrow> \<not> dgt (scaled x) WORM_TURN_SPEED"
proof -
  assume "x < 2 ^ 40"
  then have "x * 2 ^ 1024 \<le> 2 ^ 40 * 2 ^ 1024" by simp
  also have "(2::int) ^ 40 * 2 ^ 1024 = 2 ^ 46 * 2 ^ 1018" by (simp flip: power_add)
  also have "\<dots> \<le> 3602879701896397 * 2 ^ 1018" by (intro mult_right_mono) simp_all
  finally show ?thesis by (simp add: dgt_def scaled_def WORM_TURN_SPEED_def)
qed

lemma updateWorm_keeps:
  assumes "updateWorm now wm = Some wm'"
  shows "isAlive wm' = isAlive wm" and "hasSpeedBoost wm' = hasSpeedBoost wm"
    and "speedBoostEndTime wm' = speedBoostEndTime wm"
    and "targetAngle wm' = targetAngle wm" and "score wm' = score wm"
    and "isMagnetActive wm' = isMagnetActive wm"
    and "length (segments wm') =
           (if isAlive wm \<and> segments wm \<noteq> [] then Suc (length (segments wm))
            else length (segments wm))"
  using assms
  by (auto simp: updateWorm_def Let_def split: if_splits list.splits option.splits)

lemma angleDiffD_zero: "angleDiffD (DFin 0) (DFin 0) = Some (DFin 0)"
proof -
  have "dsub (DFin 0) (DFin 0) = DFin 0"
    by (simp add: dsub_def roundUnits_zero)
  moreover have "raiseAngleD (scaled 0) = Some (scaled 0)"
    by (rule raise_stop) simp
  moreover have "lowerAngleD (scaled 0) = Some (scaled 0)"
    by (rule lower_stop) simp
  ultimately show ?thesis by (simp add: angleDiffD_def scaled_zero)
qed

lemma full_turn_remainder: "drem (dadd (DFin 0) TWO_PI) TWO_PI = DFin 0"
proof -
  have "roundUnits (7074237752028440 * 2 ^ 1024) = scaled 7074237752028440"
    by (rule round_exact_int [where m = 7074237752028440 and t = 0]) simp_all
  then have "dadd (scaled 0) TWO_PI = scaled 7074237752028440"
    by (simp add: TWO_PI_scaled dadd_scaled)
  moreover have "drem (scaled 7074237752028440) (scaled 7074237752028440) = scaled 0"
    by (subst drem_scaled) simp_all
  ultimately show ?thesis by (simp add: TWO_PI_scaled scaled_zero)
qed

lemma updateWorm_straight:
  assumes "isAlive wm" and "segments wm = h # t" and "angle wm = DFin 0"
    and "targetAngle wm = DFin 0"
  shows "updateWorm now wm =
           Some (wm\<lparr>segments := \<lparr>px = px h + currentSpeed now wm, py = py h, pz = pz h\<rparr>
                                  # h # t\<rparr>)"
proof -
  have "\<not> dgt (dabs (DFin 0)) WORM_TURN_SPEED"
    using turn_speed_above [of 0] dabs_scaled [of 0] by (simp add: scaled_zero)
  then have "turnedAngle wm = Some (DFin 0)"
    using assms(3,4) by (simp add: turnedAngle_def angleDiffD_zero)
  moreover have "wm\<lparr>angle := DFin 0\<rparr> = wm" using assms(3) by simp
  ultimately show ?thesis
    using assms(1,2) by (simp add: updateWorm_def Let_def full_turn_remainder)
qed

lemma updateWorm_east:
  "updateWorm now \<lparr>segments = h # t, angle = DFin 0, targetAngle = DFin 0, color = c,
       score = s, isAlive = True, hasSpeedBoost = b, speedBoostEndTime = e,
       isMagnetActive = m, botState = bs\<rparr>
     = Some \<lparr>segments = \<lparr>px = px h + (if b \<and> now < e then WORM_SPEED * SPEED_BOOST_FACTOR
                                          else WORM_SPEED),
                             py = py h, pz = pz h\<rparr> # h # t,
             angle = DFin 0, targetAngle = DFin 0, color = c,
             score = s, isAlive = True, hasSpeedBoost = b, speedBoostEndTime = e,
             isMagnetActive = m, botState = bs\<rparr>"
  by (subst updateWorm_straight [where h = h and t = t]) (simp_all add: currentSpeed_def)

lemma updateWorm_value:
  assumes "isAlive wm" and "segments wm = h # t" and "turnedAngle wm = Some c"
    and "drem (dadd c TWO_PI) TWO_PI = scaled H"
  shows "updateWorm now wm =
           Some (wm\<lparr>angle := scaled H,
                    segments := \<lparr>px = px h + cos (of_int H / 2 ^ 50) * currentSpeed now wm,
                                 py = py h + sin (of_int H / 2 ^ 50) * currentSpeed now wm,
                                 pz = pz h\<rparr> # h # t\<rparr>)"
  using assms by (simp add: updateWorm_def Let_def toReal_scaled)

lemma ex_worm_heading:
  "map_option angle (updateWorm now ex_worm) = Some (dneg MATH_PI)"
proof -
  have d: "dsub (scaled (- 10611356628042660)) MATH_PI = scaled (- 14148475504056880)"
  proof -
    have "roundUnits (- 14148475504056880 * 2 ^ 1024) = scaled (- 14148475504056880)"
      by (rule round_exact_int [where m = 7074237752028440 and t = 1]) simp_all
    then show ?thesis by (simp add: MATH_PI_scaled dsub_scaled)
  qed
  have "raiseAngleD (scaled (- 14148475504056880)) = raiseAngleD (scaled (- 7074237752028440))"
  proof (rule raise_unfold)
    show "roundUnits ((- 14148475504056880 + 7074237752028440) * 2 ^ 1024)
            = scaled (- 7074237752028440)"
      using round_exact_int [where n = "- 7074237752028440" and m = 7074237752028440 and t = 0]
      by simp
  qed simp
  also have "\<dots> = raiseAngleD (scaled 0)"
  proof (rule raise_unfold)
    show "roundUnits ((- 7074237752028440 + 7074237752028440) * 2 ^ 1024) = scaled 0"
      by (simp add: roundUnits_zero scaled_zero)
  qed simp
  also have "\<dots> = Some (scaled 0)" by (rule raise_stop) simp
  finally have r: "raiseAngleD (scaled (- 14148475504056880)) = Some (scaled 0)" .
  have l: "lowerAngleD (scaled 0) = Some (scaled 0)" by (rule lower_stop) simp
  have diff: "angleDiffD (targetAngle ex_worm) (angle ex_worm) = Some (scaled 0)"
    by (simp add: angleDiffD_def ex_worm_def d r l)
  have "\<not> dgt (dabs (scaled 0)) WORM_TURN_SPEED"
    using turn_speed_above [of 0] by (simp add: dabs_scaled)
  then have t: "turnedAngle ex_worm = Some (scaled (- 10611356628042660))"
    by (simp add: turnedAngle_def diff) (simp add: ex_worm_def)
  have s: "dadd (scaled (- 10611356628042660)) TWO_PI = scaled (- 3537118876014220)"
  proof -
    have "roundUnits (- 3537118876014220 * 2 ^ 1024) = scaled (- 3537118876014220)"
      by (rule round_exact_int [where m = 3537118876014220 and t = 0]) simp_all
    then show ?thesis by (simp add: TWO_PI_scaled dadd_scaled)
  qed
  have m: "drem (scaled (- 3537118876014220)) TWO_PI = scaled (- 3537118876014220)"
    unfolding TWO_PI_scaled by (subst drem_scaled) simp_all
  have n: "dneg MATH_PI = scaled (- 3537118876014220)"
    by (simp add: MATH_PI_scaled dneg_scaled)
  have seg: "segments ex_worm = \<lparr>px = 100, py = 100, pz = 0\<rparr> # tl (segments ex_worm)"
    by (simp add: ex_worm_def eval_nat_numeral)
  have alive: "isAlive ex_worm" by (simp add: ex_worm_def)
  have "drem (dadd (scaled (- 10611356628042660)) TWO_PI) TWO_PI = scaled (- 3537118876014220)"
    by (simp only: s m)
  from updateWorm_value [OF alive seg t this] show ?thesis
    by (simp add: n)
qed

text \<open>
  Claim C3, at the input where the source breaks it. The worm \<open>ex_worm\<close> is alive with
  heading \<open>Math.PI\<close> and was sent the finite angle \<open>-3 * Math.PI\<close>, which is its own
  heading two turns back. The difference normalises to 0, so the update snaps to the raw
  value; it adds a single \<open>Math.PI * 2\<close> before taking the remainder, which keeps the
  sign of the dividend: the heading becomes \<open>-Math.PI\<close>, a negative number, outside
  \<open>[0, 2\<pi>)\<close>.
\<close>

theorem heading_negative_after_snap:
  "\<exists>wm' h. updateWorm now ex_worm = Some wm' \<and> angle wm' = dneg MATH_PI
      \<and> toReal (angle wm') = Some h \<and> h < 0 \<and> \<not> (0 \<le> h \<and> h < 2 * pi)"
proof -
  from ex_worm_heading [of now] obtain wm' where
    wm': "updateWorm now ex_worm = Some wm'" and a: "angle wm' = dneg MATH_PI"
    by (cases "updateWorm now ex_worm") auto
  have "toReal (dneg MATH_PI) = Some (of_int (- 3537118876014220) / 2 ^ 50)"
    unfolding MATH_PI_scaled dneg_scaled by (rule toReal_scaled)
  moreover have "of_int (- 3537118876014220) / 2 ^ 50 < (0::real)" by simp
  ultimately show ?thesis using wm' a by auto
qed

section \<open>Properties of the turn of one update\<close>

lemma cos_series_12:
  "(\<Sum>m<12. cos_coeff m * x ^ m) =
     1 - x\<^sup>2 / 2 + x ^ 4 / 24 - x ^ 6 / 720 + x ^ 8 / 40320 - x ^ 10 / 3628800"
  for x :: real
  by (simp add: lessThan_nat_numeral lessThan_Suc cos_coeff_def fact_numeral)

lemma cos_157_pos: "0 < cos (157 / 100 :: real)"
proof -
  obtain t :: real where
    "cos (157 / 100) = (\<Sum>m<12. cos_coeff m * (157 / 100) ^ m)
        + (cos (t + 1 / 2 * real 12 * pi) / fact 12) * (157 / 100) ^ 12"
    using Maclaurin_cos_expansion2 [of "157 / 100" 12] by auto
  moreover have "- 1 \<le> cos (t + 1 / 2 * real 12 * pi)" by (rule cos_ge_minus_one)
  then have "- 1 / fact 12 * (157 / 100) ^ 12
               \<le> cos (t + 1 / 2 * real 12 * pi) / fact 12 * (157 / 100 :: real) ^ 12"
    by (intro mult_right_mono divide_right_mono) simp_all
  moreover have "0 < (\<Sum>m<12. cos_coeff m * (157 / 100 :: real) ^ m)
                      + (- 1 / fact 12 * (157 / 100) ^ 12)"
    unfolding cos_series_12 by (simp add: fact_numeral power_divide)
  ultimately show ?thesis by linarith
qed

lemma pi_gt_314: "314 / 100 < pi"
proof (rule ccontr)
  assume "\<not> 314 / 100 < pi"
  then have le: "pi / 2 \<le> 157 / 100" by simp
  have "cos (157 / 100) \<le> cos (pi / 2)"
    by (rule cos_monotone_0_pi_le) (use le pi_ge_two in simp_all)
  with cos_157_pos show False by simp
qed

text \<open>
  The second loop on the angle \<open>268435457.62750757\<close>. Between two consecutive powers
  of two (in one binade) every subtraction of \<open>Math.PI * 2\<close> is rounded to the same
  multiple of the spacing there (lemma \<open>lower_run\<close>), which gives the value the loop
  has reached when it is about to leave the binade; the steps in between are single
  subtractions.
\<close>

lemma lowerAngleD_spin:
  "lowerAngleD (scaled 302231456736067912204288) = Some (scaled 7285048)"
proof -
  have "lowerAngleD (scaled 302231456736067912204288) = lowerAngleD (scaled 302231449661830164643840)"
    by (rule lower_step [where t = 25 and q = 9007199098522369 and r = 29086440]) simp_all
  also have "\<dots> = lowerAngleD (scaled 151115728401763944890368)"
    using lower_run [of 25 302231449661830164643840 7074237747560448 21361414] by simp
  also have "\<dots> = lowerAngleD (scaled 151115721327526197329920)"
    by (rule lower_step [where t = 24 and q = 9007198889704119 and r = 12309224]) simp_all
  also have "\<dots> = lowerAngleD (scaled 75557867771730835013632)"
    using lower_run [of 24 151115721327526197329920 7074237747560448 10680706] by simp
  also have "\<dots> = lowerAngleD (scaled 75557860697493079064576)"
    by (rule lower_step [where t = 23 and q = 9007198893725047 and r = 3920616]) simp_all
  also have "\<dots> = lowerAngleD (scaled 37778933874797270007808)"
    using lower_run [of 23 75557860697493079064576 7074237755949056 5340353] by simp
  also have "\<dots> = lowerAngleD (scaled 37778926800559518253056)"
    by (rule lower_step [where t = 22 and q = 9007198047771338 and r = 3920616]) simp_all
  also have "\<dots> = lowerAngleD (scaled 18889466937530021576704)"
    using lower_run [of 22 37778926800559518253056 7074237751754752 2670176] by simp
  also have "\<dots> = lowerAngleD (scaled 18889459863292269821952)"
    by (rule lower_step [where t = 21 and q = 9007196361204275 and r = 1823464]) simp_all
  also have "\<dots> = lowerAngleD (scaled 9444737006015273238528)"
    using lower_run [of 21 18889459863292269821952 7074237751754752 1335087] by simp
  also have "\<dots> = lowerAngleD (scaled 9444729931777521483776)"
    by (rule lower_step [where t = 20 and q = 9007196361329575 and r = 774888]) simp_all
  also have "\<dots> = lowerAngleD (scaled 4722372040257899069440)"
    using lower_run [of 20 9444729931777521483776 7074237751754752 667543] by simp
  also have "\<dots> = lowerAngleD (scaled 4722364966020146790400)"
    by (rule lower_step [where t = 19 and q = 9007196361580175 and r = 250600]) simp_all
  also have "\<dots> = lowerAngleD (scaled 2361189557204219330560)"
    using lower_run [of 19 4722364966020146790400 7074237752279040 333771] by simp
  also have "\<dots> = lowerAngleD (scaled 2361182482966467313664)"
    by (rule lower_step [where t = 18 and q = 9007196361413830 and r = 250600]) simp_all
  also have "\<dots> = lowerAngleD (scaled 1180598315721127624704)"
    using lower_run [of 18 2361182482966467313664 7074237752016896 166885] by simp
  also have "\<dots> = lowerAngleD (scaled 1180591241483375607808)"
    by (rule lower_step [where t = 17 and q = 9007196361414913 and r = 119528]) simp_all
  also have "\<dots> = lowerAngleD (scaled 590302694979581771776)"
    using lower_run [of 17 1180591241483375607808 7074237752016896 83442] by simp
  also have "\<dots> = lowerAngleD (scaled 590295620741829754880)"
    by (rule lower_step [where t = 16 and q = 9007196361417079 and r = 53992]) simp_all
  also have "\<dots> = lowerAngleD (scaled 295151347489932836864)"
    using lower_run [of 16 590295620741829754880 7074237752016896 41721] by simp
  also have "\<dots> = lowerAngleD (scaled 295144273252180819968)"
    by (rule lower_step [where t = 15 and q = 9007088417119775 and r = 21224]) simp_all
  also have "\<dots> = lowerAngleD (scaled 147575673745108369408)"
    using lower_run [of 15 295144273252180819968 7074237752016896 20860] by simp
  also have "\<dots> = lowerAngleD (scaled 147568599507356336128)"
    by (rule lower_step [where t = 14 and q = 9006872528525167 and r = 4840]) simp_all
  also have "\<dots> = lowerAngleD (scaled 73791373991401259008)"
    using lower_run [of 14 147568599507356336128 7074237752033280 10429] by simp
  also have "\<dots> = lowerAngleD (scaled 73784299753649233920)"
    by (rule lower_step [where t = 13 and q = 9006872528521634 and r = 4840]) simp_all
  also have "\<dots> = lowerAngleD (scaled 36899224114590425088)"
    using lower_run [of 13 73784299753649233920 7074237752025088 5214] by simp
  also have "\<dots> = lowerAngleD (scaled 36892149876838395904)"
    by (rule lower_step [where t = 12 and q = 9006872528524999 and r = 744]) simp_all
  also have "\<dots> = lowerAngleD (scaled 18449612057298313216)"
    using lower_run [of 12 36892149876838395904 7074237752029184 2607] by simp
  also have "\<dots> = lowerAngleD (scaled 18442537819546284032)"
    by (rule lower_step [where t = 11 and q = 9005145419700334 and r = 744]) simp_all
  also have "\<dots> = lowerAngleD (scaled 9224806028652257280)"
    using lower_run [of 11 18442537819546284032 7074237752029184 1303] by simp
  also have "\<dots> = lowerAngleD (scaled 9217731790900229120)"
    by (rule lower_step [where t = 10 and q = 9001691202051004 and r = 744]) simp_all
  also have "\<dots> = lowerAngleD (scaled 4612403014329896960)"
    using lower_run [of 10 9217731790900229120 7074237752028160 651] by simp
  also have "\<dots> = lowerAngleD (scaled 4605328776577868288)"
    by (rule lower_step [where t = 9 and q = 8994782766753649 and r = 232]) simp_all
  also have "\<dots> = lowerAngleD (scaled 2306201507168549888)"
    using lower_run [of 9 4605328776577868288 7074237752028672 325] by simp
  also have "\<dots> = lowerAngleD (scaled 2299127269416521472)"
    by (rule lower_step [where t = 8 and q = 8980965896158286 and r = 232]) simp_all
  also have "\<dots> = lowerAngleD (scaled 1153100753587918080)"
    using lower_run [of 8 2299127269416521472 7074237752028416 162] by simp
  also have "\<dots> = lowerAngleD (scaled 1146026515835889664)"
    by (rule lower_step [where t = 7 and q = 8953332154967887 and r = 104]) simp_all
  also have "\<dots> = lowerAngleD (scaled 580087495673616384)"
    using lower_run [of 7 1146026515835889664 7074237752028416 80] by simp
  also have "\<dots> = lowerAngleD (scaled 573013257921587968)"
    by (rule lower_step [where t = 6 and q = 8953332155024811 and r = 40]) simp_all
  also have "\<dots> = lowerAngleD (scaled 290043747840451328)"
    using lower_run [of 6 573013257921587968 7074237752028416 40] by simp
  also have "\<dots> = lowerAngleD (scaled 282969510088422880)"
    by (rule lower_step [where t = 5 and q = 8842797190263215 and r = 8]) simp_all
  also have "\<dots> = lowerAngleD (scaled 148558992799882368)"
    using lower_run [of 5 282969510088422880 7074237752028448 19] by simp
  also have "\<dots> = lowerAngleD (scaled 141484755047853920)"
    by (rule lower_step [where t = 4 and q = 8842797190490870 and r = 8]) simp_all
  also have "\<dots> = lowerAngleD (scaled 134410517295825472)"
    by (rule lower_step [where t = 4 and q = 8400657330989092 and r = 8]) simp_all
  also have "\<dots> = lowerAngleD (scaled 127336279543797024)"
    by (rule lower_step [where t = 4 and q = 7958517471487314 and r = 8]) simp_all
  also have "\<dots> = lowerAngleD (scaled 120262041791768576)"
    by (rule lower_step [where t = 4 and q = 7516377611985536 and r = 8]) simp_all
  also have "\<dots> = lowerAngleD (scaled 113187804039740128)"
    by (rule lower_step [where t = 4 and q = 7074237752483758 and r = 8]) simp_all
  also have "\<dots> = lowerAngleD (scaled 106113566287711680)"
    by (rule lower_step [where t = 4 and q = 6632097892981980 and r = 8]) simp_all
  also have "\<dots> = lowerAngleD (scaled 99039328535683232)"
    by (rule lower_step [where t = 4 and q = 6189958033480202 and r = 8]) simp_all
  also have "\<dots> = lowerAngleD (scaled 91965090783654784)"
    by (rule lower_step [where t = 4 and q = 5747818173978424 and r = 8]) simp_all
  also have "\<dots> = lowerAngleD (scaled 84890853031626336)"
    by (rule lower_step [where t = 4 and q = 5305678314476646 and r = 8]) simp_all
  also have "\<dots> = lowerAngleD (scaled 77816615279597888)"
    by (rule lower_step [where t = 4 and q = 4863538454974868 and r = 8]) simp_all
  also have "\<dots> = lowerAngleD (scaled 70742377527569448)"
    by (rule lower_step [where t = 3 and q = 8842797190946181 and r = 0]) simp_all
  also have "\<dots> = lowerAngleD (scaled 42445426519455688)"
    using lower_run [of 3 70742377527569448 7074237752028440 4] by simp
  also have "\<dots> = lowerAngleD (scaled 35371188767427248)"
    by (rule lower_step [where t = 2 and q = 8842797191856812 and r = 0]) simp_all
  also have "\<dots> = lowerAngleD (scaled 21222713263370368)"
    using lower_run [of 2 35371188767427248 7074237752028440 2] by simp
  also have "\<dots> = lowerAngleD (scaled 14148475511341928)"
    by (rule lower_step [where t = 1 and q = 7074237755670964 and r = 0]) simp_all
  also have "\<dots> = lowerAngleD (scaled 7074237759313488)"
    using lower_step_exact [of 14148475511341928] by simp
  also have "\<dots> = lowerAngleD (scaled 7285048)"
    using lower_step_exact [of 7074237759313488] by simp
  also have "\<dots> = Some (scaled 7285048)"
    by (rule lower_stop) simp
  finally show ?thesis .
qed

lemma ex_spinner_diff:
  "angleDiffD (targetAngle ex_spinner) (angle ex_spinner) = Some (scaled 7285048)"
proof -
  have "roundUnits (302231456736067912204288 * 2 ^ 1024) = scaled 302231456736067912204288"
    by (rule round_exact_int [where m = 4503599654675542 and t = 26]) simp_all
  then have "dsub (scaled 302231456736067912204288) (scaled 0)
               = scaled 302231456736067912204288"
    by (simp add: dsub_scaled)
  moreover have "raiseAngleD (scaled 302231456736067912204288)
                   = Some (scaled 302231456736067912204288)"
    by (rule raise_stop) simp
  ultimately show ?thesis
    by (simp add: angleDiffD_def ex_spinner_def ex_eater_def lowerAngleD_spin
          flip: scaled_zero)
qed

lemma ex_spinner_moved:
  "updateWorm now ex_spinner =
     Some (ex_spinner\<lparr>angle := scaled 6950812462479536,
        segments := [\<lparr>px = 100 + cos (of_int 6950812462479536 / 2 ^ 50) * 2,
                      py = 100 + sin (of_int 6950812462479536 / 2 ^ 50) * 2, pz = 0\<rparr>,
                     \<lparr>px = 100, py = 100, pz = 0\<rparr>]\<rparr>)"
proof -
  have "\<not> dgt (dabs (scaled 7285048)) WORM_TURN_SPEED"
    using turn_speed_above [of 7285048] by (simp add: dabs_scaled)
  then have t: "turnedAngle ex_spinner = Some (scaled 302231456736067912204288)"
    by (simp add: turnedAngle_def ex_spinner_diff) (simp add: ex_spinner_def)
  have "roundUnits ((302231456736067912204288 + 7074237752028440) * 2 ^ 1024)
          = scaled 302231463810305659764736"
    using round_scaled_int [where Y = "302231456736067912204288 + 7074237752028440"
        and t = 26 and q = 4503599760089899 and r = 4467992]
    by simp
  then have s: "dadd (scaled 302231456736067912204288) TWO_PI
                  = scaled 302231463810305659764736"
    by (simp add: TWO_PI_scaled dadd_scaled)
  have m: "drem (scaled 302231463810305659764736) TWO_PI = scaled 6950812462479536"
    unfolding TWO_PI_scaled by (subst drem_scaled) simp_all
  have alive: "isAlive ex_spinner" by (simp add: ex_spinner_def ex_eater_def)
  have seg: "segments ex_spinner = \<lparr>px = 100, py = 100, pz = 0\<rparr> # []"
    by (simp add: ex_spinner_def ex_eater_def)
  have speed: "currentSpeed now ex_spinner = 2"
    by (simp add: currentSpeed_def ex_spinner_def ex_eater_def WORM_SPEED_def)
  have "drem (dadd (scaled 302231456736067912204288) TWO_PI) TWO_PI
          = scaled 6950812462479536"
    by (simp only: s m)
  from updateWorm_value [OF alive seg t this, of now] show ?thesis
    by (simp add: speed)
qed

text \<open>
  Claim C4, at an input where the source breaks it. The worm \<open>ex_spinner\<close> has heading 0
  and was sent the finite angle \<open>268435457.62750757\<close>. The loop subtracts \<open>Math.PI * 2\<close>
  from it 42722830 times; above 64 every one of these subtractions is rounded, and the
  rounding errors add up: the loop ends at \<open>7285048 * 2^(-50)\<close>, about \<open>6.5e-9\<close>,
  although the desired heading lies about 0.11 short of a whole number of turns. The
  difference found is below the turn rate, so the update snaps: the new heading is
  \<open>6950812462479536 * 2^(-50)\<close>, about 6.1736, and it differs from the old heading 0 by
  more than twice the maximum turn rate whichever way round the circle, and however
  many turns, the change is measured.
\<close>

theorem turn_exceeds_rate:
  "\<exists>wm' h t. updateWorm now ex_spinner = Some wm'
      \<and> angleDiffD (targetAngle ex_spinner) (angle ex_spinner) = Some (scaled 7285048)
      \<and> angle wm' = scaled 6950812462479536
      \<and> toReal (angle ex_spinner) = Some 0
      \<and> toReal (angle wm') = Some h
      \<and> toReal WORM_TURN_SPEED = Some t
      \<and> (\<forall>k::int. 2 * t < \<bar>h - 0 + 2 * pi * of_int k\<bar>)"
proof -
  define h :: real where "h = of_int 6950812462479536 / 2 ^ 50"
  define t :: real where "t = 3602879701896397 / 2 ^ 56"
  have hlo: "6 < h" and hhi: "h < 6174 / 1000" by (simp_all add: h_def)
  have thi: "2 * t < 101 / 1000" by (simp add: t_def)
  have far: "2 * t < \<bar>h - 0 + 2 * pi * of_int k\<bar>" for k :: int
  proof -
    consider "0 \<le> k" | "k = - 1" | "k \<le> - 2" by linarith
    then show ?thesis
    proof cases
      case 1
      then have "0 \<le> 2 * pi * of_int k" by simp
      with hlo thi show ?thesis by linarith
    next
      case 2
      with hhi thi pi_gt_314 show ?thesis by simp
    next
      case 3
      then have "of_int k \<le> (- 2 :: real)" by linarith
      then have "2 * pi * of_int k \<le> 2 * pi * (- 2)"
        by (intro mult_left_mono) simp_all
      with hhi thi pi_gt_314 show ?thesis by linarith
    qed
  qed
  have "(2::real) ^ 1074 = 2 ^ 1018 * 2 ^ 56" by (simp flip: power_add)
  then have ts: "toReal WORM_TURN_SPEED = Some t"
    by (simp add: WORM_TURN_SPEED_def t_def)
  have h0: "toReal (angle ex_spinner) = Some 0"
    by (simp add: ex_spinner_def ex_eater_def)
  have "toReal (scaled 6950812462479536) = Some h"
    unfolding h_def by (rule toReal_scaled)
  with ex_spinner_moved [of now] ex_spinner_diff ts h0 far show ?thesis
    by auto
qed

section \<open>Properties of food spawning\<close>

lemma mathRandom_snd: "snd (mathRandom R w) = w\<lparr>rngPos := Suc (rngPos w)\<rparr>"
  and mathRandom_fst: "fst (mathRandom R w) = R (rngPos w)"
  by (simp_all add: mathRandom_def)

lemma getRandomSpawnPositionXY_snd:
  "snd (getRandomSpawnPositionXY R m w) = w\<lparr>rngPos := Suc (Suc (rngPos w))\<rparr>"
  by (simp add: getRandomSpawnPositionXY_def mathRandom_def)

lemma findSpawnPos_frame:
  "findSpawnPos R n w = Some (found, w1) \<Longrightarrow> \<exists>c. w1 = w\<lparr>rngPos := c\<rparr>"
proof (induction n arbitrary: w)
  case 0
  then have "w1 = w\<lparr>rngPos := rngPos w\<rparr>" by simp
  then show ?case by blast
next
  case (Suc n)
  let ?w' = "w\<lparr>rngPos := Suc (Suc (rngPos w))\<rparr>"
  from Suc.prems consider "w1 = ?w'" | "findSpawnPos R n ?w' = Some (found, w1)"
    using getRandomSpawnPositionXY_snd [of R "FOOD_RADIUS * 4" w]
    by (auto simp: case_prod_beta Let_def split: option.splits if_splits)
  then show ?case
  proof cases
    case 1
    then show ?thesis by blast
  next
    case 2
    from Suc.IH [OF 2] obtain c where "w1 = ?w'\<lparr>rngPos := c\<rparr>" by blast
    then have "w1 = w\<lparr>rngPos := c\<rparr>" by simp
    then show ?thesis by blast
  qed
qed

lemma spawnOne_shape:
  assumes "spawnOne R w = Some w'"
  shows "\<exists>c i x y h.
           w' = w\<lparr>rngPos := c,
                  food := food w @
                    [\<lparr>fid = nextFoodId w, fx = x, fy = y, fz = WORLD_GROUND_Z, fcolor = h,
                      fradius = FOOD_RADIUS, ftype = randomFoodType (R i)\<rparr>],
                  nextFoodId := Suc (nextFoodId w)\<rparr>"
proof -
  from assms obtain found w1 where f: "findSpawnPos R 15 w = Some (found, w1)"
    by (auto simp: spawnOne_def split: option.splits)
  from findSpawnPos_frame [OF f] obtain c where w1: "w1 = w\<lparr>rngPos := c\<rparr>" by blast
  show ?thesis
  proof (cases found)
    case None
    with assms f w1 show ?thesis
      by (simp add: spawnOne_def getRandomSpawnPositionXY_def mathRandom_def
            getRandomColor_def Let_def) blast
  next
    case (Some pos)
    with assms f w1 show ?thesis
      by (simp add: spawnOne_def mathRandom_def getRandomColor_def Let_def
            case_prod_beta) blast
  qed
qed

lemma spawnFood_shape:
  "spawnFood R n w = Some w' \<Longrightarrow>
     \<exists>c new. w' = w\<lparr>rngPos := c, food := food w @ new,
                       nextFoodId := nextFoodId w + length new\<rparr>
             \<and> (\<forall>i < length new. fid (new ! i) = nextFoodId w + i)
             \<and> (\<forall>f \<in> set new. \<exists>i. ftype f = randomFoodType (R i))
             \<and> length new \<le> n"
proof (induction n arbitrary: w)
  case 0
  then have "w' = w\<lparr>rngPos := rngPos w, food := food w @ [],
                     nextFoodId := nextFoodId w + length ([]::food_item list)\<rparr>"
    by simp
  then show ?case
    by (intro exI [of _ "rngPos w"] exI [of _ "[]"]) simp
next
  case (Suc n)
  show ?case
  proof (cases "length (food w) \<ge> MAX_FOOD")
    case True
    with Suc.prems have "w' = w\<lparr>rngPos := rngPos w, food := food w @ [],
                     nextFoodId := nextFoodId w + length ([]::food_item list)\<rparr>"
      by simp
    then show ?thesis
      by (intro exI [of _ "rngPos w"] exI [of _ "[]"]) simp
  next
    case False
    with Suc.prems obtain w1 where one: "spawnOne R w = Some w1"
      and rest: "spawnFood R n w1 = Some w'"
      by (auto split: option.splits)
    from spawnOne_shape [OF one] obtain c1 i x y h where
      w1: "w1 = w\<lparr>rngPos := c1,
                  food := food w @
                    [\<lparr>fid = nextFoodId w, fx = x, fy = y, fz = WORLD_GROUND_Z, fcolor = h,
                      fradius = FOOD_RADIUS, ftype = randomFoodType (R i)\<rparr>],
                  nextFoodId := Suc (nextFoodId w)\<rparr>"
      by blast
    define item where "item = \<lparr>fid = nextFoodId w, fx = x, fy = y, fz = WORLD_GROUND_Z,
                      fcolor = h, fradius = FOOD_RADIUS, ftype = randomFoodType (R i)\<rparr>"
    from Suc.IH [OF rest] obtain c new where
      w': "w' = w1\<lparr>rngPos := c, food := food w1 @ new,
                       nextFoodId := nextFoodId w1 + length new\<rparr>"
      and ids: "\<forall>i < length new. fid (new ! i) = nextFoodId w1 + i"
      and tys: "\<forall>f \<in> set new. \<exists>i. ftype f = randomFoodType (R i)"
      and len: "length new \<le> n"
      by blast
    have a: "w' = w\<lparr>rngPos := c, food := food w @ (item # new),
                       nextFoodId := nextFoodId w + length (item # new)\<rparr>"
      using w' w1 by (simp add: item_def)
    have b: "\<forall>i < length (item # new). fid ((item # new) ! i) = nextFoodId w + i"
      using ids w1 by (auto simp: item_def nth_Cons split: nat.splits)
    have c: "\<forall>f \<in> set (item # new). \<exists>i. ftype f = randomFoodType (R i)"
      using tys by (auto simp: item_def)
    have d: "length (item # new) \<le> Suc n" using len by simp
    from a b c d show ?thesis by blast
  qed
qed


















section \<open>Properties of food consumption\<close>

lemma worm_of_frame [simp]:
  "worm_of (w\<lparr>food := a\<rparr>) k = worm_of w k"
  "worm_of (w\<lparr>rngPos := c\<rparr>) k = worm_of w k"
  "worm_of (w\<lparr>nextFoodId := n\<rparr>) k = worm_of w k"
  "worm_of (w\<lparr>eatenFoodThisTick := e\<rparr>) k = worm_of w k"
  by (simp_all add: worm_of_def)

lemma update_worm_of_frame [simp]:
  "food (update_worm_of k f w) = food w"
  "nextFoodId (update_worm_of k f w) = nextFoodId w"
  "eatenFoodThisTick (update_worm_of k f w) = eatenFoodThisTick w"
  "rngPos (update_worm_of k f w) = rngPos w"
  by (simp_all add: update_worm_of_def)

lemma eatFood_effect:
  assumes "eatFood R now k j w = Some w'"
  shows "\<exists>p new. map_of (players w) k = Some p
        \<and> food w' = take j (food w) @ drop (Suc j) (food w) @ new
        \<and> nextFoodId w' = nextFoodId w + length new
        \<and> (\<forall>i < length new. fid (new ! i) = nextFoodId w + i)
        \<and> length new \<le> 1
        \<and> eatenFoodThisTick w' = eatenFoodThisTick w @
             [\<lparr>eid = fid (food w ! j), eaterId = pid p, etype = ftype (food w ! j)\<rparr>]"
  using assms
  by (auto simp: eatFood_def Let_def simp del: spawnFood.simps
           split: option.splits if_splits dest!: spawnFood_shape)

lemma eatFood_worm:
  assumes "eatFood R now k j w = Some w'" and "worm_of w k = Some wm"
  shows "\<exists>wm'. worm_of w' k = Some wm' \<and> segments wm' = segments wm
           \<and> isAlive wm' = isAlive wm
           \<and> isMagnetActive wm' = (isMagnetActive wm \<or> ftype (food w ! j) = FOOD_TYPE_MAGNET)
           \<and> score wm' = score wm + FOOD_SCORE"
proof -
  have ne: "FOOD_TYPE_POWER \<noteq> FOOD_TYPE_MAGNET"
    by (simp add: game_consts)
  show ?thesis
    using assms ne
    by (auto simp: eatFood_def Let_def worm_of_update_worm_of simp del: spawnFood.simps
             split: option.splits if_splits dest!: spawnFood_shape)
qed

lemma ids_step_refl: "ids_ok w \<Longrightarrow> ids_step w w"
  by (simp add: ids_step_def)

lemma ids_step_trans: "ids_step w w1 \<Longrightarrow> ids_step w1 w2 \<Longrightarrow> ids_step w w2"
  unfolding ids_step_def by (meson order_trans)

lemma ids_step_same_food:
  "ids_step w w1 \<Longrightarrow> food w2 = food w1 \<Longrightarrow> nextFoodId w2 = nextFoodId w1 \<Longrightarrow> ids_step w w2"
  by (simp add: ids_step_def ids_ok_def)

lemma distinct_remove_nth:
  assumes "distinct (map fid fs)"
  shows "distinct (map fid (take j fs @ drop (Suc j) fs))"
proof -
  have "set (take j (map fid fs)) \<inter> set (drop (Suc j) (map fid fs)) = {}"
    by (rule set_take_disj_set_drop_if_distinct [OF assms]) simp
  then show ?thesis
    using assms by (simp add: take_map drop_map distinct_take distinct_drop
                         flip: take_map drop_map)
qed

lemma ids_step_new_items:
  assumes ok: "ids_ok w"
    and food: "food w' = xs @ new"
    and sub: "set xs \<subseteq> set (food w)"
    and dist: "distinct (map fid xs)"
    and nxt: "nextFoodId w' = nextFoodId w + length new"
    and ids: "\<forall>i < length new. fid (new ! i) = nextFoodId w + i"
  shows "ids_step w w'"
proof -
  have old: "\<forall>f \<in> set xs. fid f < nextFoodId w"
    using ok sub by (auto simp: ids_ok_def)
  have new: "\<forall>g \<in> set new. nextFoodId w \<le> fid g \<and> fid g < nextFoodId w + length new"
    using ids by (auto simp: in_set_conv_nth)
  have dnew: "distinct (map fid new)"
    using ids by (auto simp: distinct_conv_nth)
  have disj: "fid ` set xs \<inter> fid ` set new = {}"
    using old new by fastforce
  have "distinct (map fid (food w'))"
    using dist dnew disj by (simp add: food)
  moreover have "\<forall>f \<in> set (food w'). fid f < nextFoodId w'"
    using old new by (auto simp: food nxt)
  moreover have "\<forall>g \<in> set (food w'). g \<in> set (food w) \<or> nextFoodId w \<le> fid g"
    using sub new by (auto simp: food)
  ultimately show ?thesis
    by (simp add: ids_step_def ids_ok_def nxt)
qed

lemma spawnFood_ids:
  assumes "ids_ok w" and "spawnFood R n w = Some w'"
  shows "ids_step w w'"
proof -
  from spawnFood_shape [OF assms(2)] obtain c new where
    w': "w' = w\<lparr>rngPos := c, food := food w @ new,
                   nextFoodId := nextFoodId w + length new\<rparr>"
    and ids: "\<forall>i < length new. fid (new ! i) = nextFoodId w + i"
    by blast
  show ?thesis
  proof (rule ids_step_new_items [OF assms(1) _ _ _ _ ids])
    show "food w' = food w @ new" using w' by simp
    show "set (food w) \<subseteq> set (food w)" by simp
    show "distinct (map fid (food w))" using assms(1) by (simp add: ids_ok_def)
    show "nextFoodId w' = nextFoodId w + length new" using w' by simp
  qed
qed

lemma eatFood_ids:
  assumes "ids_ok w" and "eatFood R now k j w = Some w'"
  shows "ids_step w w'"
proof -
  from eatFood_effect [OF assms(2)] obtain new where
    food: "food w' = take j (food w) @ drop (Suc j) (food w) @ new"
    and nxt: "nextFoodId w' = nextFoodId w + length new"
    and ids: "\<forall>i < length new. fid (new ! i) = nextFoodId w + i"
    by blast
  show ?thesis
  proof (rule ids_step_new_items [OF assms(1) _ _ _ nxt ids])
    show "food w' = (take j (food w) @ drop (Suc j) (food w)) @ new"
      using food by simp
    show "set (take j (food w) @ drop (Suc j) (food w)) \<subseteq> set (food w)"
      by (auto dest: in_set_takeD in_set_dropD)
    show "distinct (map fid (take j (food w) @ drop (Suc j) (food w)))"
      using assms(1) by (intro distinct_remove_nth) (simp add: ids_ok_def)
  qed
qed

lemma eatLoop_SucE:
  assumes "eatLoop R now k head (Suc j) ate w = Some (ate', w')"
  obtains (miss) wm where "worm_of w k = Some wm" and "j < length (food w)"
      and "\<not> foodInReach wm head (food w ! j)"
      and "eatLoop R now k head j ate w = Some (ate', w')"
  | (last) wm w1 wm1 where "worm_of w k = Some wm" and "j < length (food w)"
      and "foodInReach wm head (food w ! j)"
      and "eatFood R now k j w = Some w1" and "worm_of w1 k = Some wm1"
      and "\<not> isMagnetActive wm1" and "ate' = True" and "w' = w1"
  | (more) wm w1 wm1 where "worm_of w k = Some wm" and "j < length (food w)"
      and "foodInReach wm head (food w ! j)"
      and "eatFood R now k j w = Some w1" and "worm_of w1 k = Some wm1"
      and "isMagnetActive wm1"
      and "eatLoop R now k head j True w1 = Some (ate', w')"
  using assms by (auto split: option.splits if_splits)

lemma eatLoop_ids:
  "ids_ok w \<Longrightarrow> eatLoop R now k head j ate w = Some (ate', w') \<Longrightarrow> ids_step w w'"
proof (induction j arbitrary: ate w)
  case 0
  then show ?case by (simp add: ids_step_refl)
next
  case (Suc j)
  from Suc.prems(2) show ?case
  proof (cases rule: eatLoop_SucE)
    case (miss wm)
    then show ?thesis using Suc.IH Suc.prems(1) by blast
  next
    case (last wm w1 wm1)
    then show ?thesis using eatFood_ids Suc.prems(1) by blast
  next
    case (more wm w1 wm1)
    have s1: "ids_step w w1" using eatFood_ids Suc.prems(1) more(4) by blast
    then have "ids_ok w1" by (simp add: ids_step_def)
    then have "ids_step w1 w'" using Suc.IH more(7) by blast
    with s1 show ?thesis by (rule ids_step_trans)
  qed
qed

lemma eatLoop_eaten:
  "eatLoop R now k head j ate w = Some (ate', w') \<Longrightarrow>
     \<exists>es. eatenFoodThisTick w' = eatenFoodThisTick w @ es \<and> ate' = (ate \<or> es \<noteq> [])"
proof (induction j arbitrary: ate w)
  case 0
  then show ?case by simp
next
  case (Suc j)
  from Suc.prems show ?case
  proof (cases rule: eatLoop_SucE)
    case (miss wm)
    then show ?thesis using Suc.IH by blast
  next
    case (last wm w1 wm1)
    from eatFood_effect [OF last(4)] obtain e where
      "eatenFoodThisTick w1 = eatenFoodThisTick w @ [e]" by blast
    then show ?thesis using last by simp
  next
    case (more wm w1 wm1)
    from eatFood_effect [OF more(4)] obtain e where
      e: "eatenFoodThisTick w1 = eatenFoodThisTick w @ [e]" by blast
    from Suc.IH [OF more(7)] obtain es where
      "eatenFoodThisTick w' = eatenFoodThisTick w1 @ es" and "ate' = (True \<or> es \<noteq> [])"
      by blast
    then have "eatenFoodThisTick w' = eatenFoodThisTick w @ (e # es)"
      and "ate' = (ate \<or> e # es \<noteq> [])"
      using e by simp_all
    then show ?thesis by blast
  qed
qed

lemma eatLoop_worm:
  "eatLoop R now k head j ate w = Some (ate', w') \<Longrightarrow> worm_of w k = Some wm \<Longrightarrow>
     \<exists>wm'. worm_of w' k = Some wm' \<and> segments wm' = segments wm
          \<and> isAlive wm' = isAlive wm \<and> (isMagnetActive wm \<longrightarrow> isMagnetActive wm')"
proof (induction j arbitrary: ate w wm)
  case 0
  then show ?case by simp
next
  case (Suc j)
  from Suc.prems(1) show ?case
  proof (cases rule: eatLoop_SucE)
    case (miss wm0)
    then show ?thesis using Suc.IH Suc.prems(2) by blast
  next
    case (last wm0 w1 wm1)
    then show ?thesis using eatFood_worm [OF last(4) Suc.prems(2)] by auto
  next
    case (more wm0 w1 wm1)
    from eatFood_worm [OF more(4) Suc.prems(2)] more(5)
    have a: "segments wm1 = segments wm" "isAlive wm1 = isAlive wm" by auto
    from Suc.IH [OF more(7) more(5)] obtain wm' where
      "worm_of w' k = Some wm'" "segments wm' = segments wm1"
      "isAlive wm' = isAlive wm1" "isMagnetActive wm'"
      using more(6) by blast
    with a show ?thesis by simp
  qed
qed

lemma eatLoop_single:
  "eatLoop R now k head j ate w = Some (ate', w') \<Longrightarrow> worm_of w' k = Some wm' \<Longrightarrow>
   \<not> isMagnetActive wm' \<Longrightarrow>
     (w' = w \<and> ate' = ate) \<or> (\<exists>i < j. eatFood R now k i w = Some w' \<and> ate' = True)"
proof (induction j arbitrary: ate w)
  case 0
  then show ?case by simp
next
  case (Suc j)
  from Suc.prems(1) show ?case
  proof (cases rule: eatLoop_SucE)
    case (miss wm)
    from Suc.IH [OF miss(4) Suc.prems(2,3)] show ?thesis
      using less_Suc_eq by auto
  next
    case (last wm w1 wm1)
    then show ?thesis by auto
  next
    case (more wm w1 wm1)
    from eatLoop_worm [OF more(7) more(5)] more(6) Suc.prems(2,3)
    show ?thesis by auto
  qed
qed

section \<open>Properties of food dropped on death and of the food ids\<close>

lemma redrawFoodType_frame:
  assumes "redrawFoodType R t w = Some (t', w')"
  shows "(\<exists>c. w' = w\<lparr>rngPos := c\<rparr>) \<and> t' \<notin> set specialFoodTypes"
proof -
  have "(\<exists>c. snd y = w\<lparr>rngPos := c\<rparr>) \<and> fst y \<notin> set specialFoodTypes"
    if "redrawFoodType R t w = Some y" for R t w y
    using that
  proof (induction rule: redrawFoodType.raw_induct [rotated 1, consumes 1])
    case (1 f R t w y)
    show ?case
    proof (cases "t \<in> set specialFoodTypes")
      case True
      with 1(2) have "f R (randomFoodType (fst (mathRandom R w))) (snd (mathRandom R w)) = Some y"
        by simp
      from 1(1) [OF this] obtain c where
        "snd y = (snd (mathRandom R w))\<lparr>rngPos := c\<rparr>" and "fst y \<notin> set specialFoodTypes"
        by blast
      then have "snd y = w\<lparr>rngPos := c\<rparr>" and "fst y \<notin> set specialFoodTypes"
        by (simp_all add: mathRandom_def)
      then show ?thesis by blast
    next
      case False
      with 1(2) have "y = (t, w)" by simp
      then have "snd y = w\<lparr>rngPos := rngPos w\<rparr>" and "fst y \<notin> set specialFoodTypes"
        using False by simp_all
      then show ?thesis by blast
    qed
  qed
  from this [OF assms] show ?thesis by simp
qed

lemma dropFood_shape:
  "dropFood R col index segs w = Some w' \<Longrightarrow>
     \<exists>c new. w' = w\<lparr>rngPos := c, food := food w @ new,
                       nextFoodId := nextFoodId w + length new\<rparr>
             \<and> (\<forall>i < length new. fid (new ! i) = nextFoodId w + i)
             \<and> (\<forall>f \<in> set new. ftype f \<notin> set specialFoodTypes)"
proof (induction segs arbitrary: index w)
  case Nil
  then have "w' = w\<lparr>rngPos := rngPos w, food := food w @ [],
                     nextFoodId := nextFoodId w + length ([]::food_item list)\<rparr>"
    by simp
  then show ?case
    by (intro exI [of _ "rngPos w"] exI [of _ "[]"]) simp
next
  case (Cons seg segs)
  let ?w1 = "w\<lparr>rngPos := Suc (rngPos w)\<rparr>"
  let ?w2 = "w\<lparr>rngPos := Suc (Suc (rngPos w))\<rparr>"
  from Cons.prems consider
      (skip) "dropFood R col (Suc index) segs w = Some w'"
    | (skip1) "dropFood R col (Suc index) segs ?w1 = Some w'"
    | (drop) t w3 where
        "redrawFoodType R (randomFoodType (R (Suc (rngPos w)))) ?w2 = Some (t, w3)"
        "dropFood R col (Suc index) segs
           (w3\<lparr>food := food w3 @
                  [\<lparr>fid = nextFoodId w3, fx = px seg, fy = py seg, fz = pz seg,
                    fcolor = col, fradius = FOOD_RADIUS, ftype = t\<rparr>],
                nextFoodId := Suc (nextFoodId w3)\<rparr>) = Some w'"
    by (auto simp: mathRandom_def Let_def split: if_splits option.splits)
  then show ?case
  proof cases
    case skip
    from Cons.IH [OF this] show ?thesis .
  next
    case skip1
    from Cons.IH [OF this] obtain c new where
      "w' = ?w1\<lparr>rngPos := c, food := food ?w1 @ new,
                       nextFoodId := nextFoodId ?w1 + length new\<rparr>"
      and "\<forall>i < length new. fid (new ! i) = nextFoodId ?w1 + i"
      and "\<forall>f \<in> set new. ftype f \<notin> set specialFoodTypes"
      by blast
    then have "w' = w\<lparr>rngPos := c, food := food w @ new,
                       nextFoodId := nextFoodId w + length new\<rparr>"
      and "\<forall>i < length new. fid (new ! i) = nextFoodId w + i"
      and "\<forall>f \<in> set new. ftype f \<notin> set specialFoodTypes"
      by simp_all
    then show ?thesis by blast
  next
    case (drop t w3)
    from redrawFoodType_frame [OF drop(1)] obtain c3 where
      w3: "w3 = w\<lparr>rngPos := c3\<rparr>" and t: "t \<notin> set specialFoodTypes"
      by auto
    define item where "item = \<lparr>fid = nextFoodId w, fx = px seg, fy = py seg, fz = pz seg,
                    fcolor = col, fradius = FOOD_RADIUS, ftype = t\<rparr>"
    define w4 where "w4 = w3\<lparr>food := food w3 @ [item], nextFoodId := Suc (nextFoodId w3)\<rparr>"
    have d: "dropFood R col (Suc index) segs w4 = Some w'"
      using drop(2) by (simp add: w4_def item_def w3)
    from Cons.IH [OF d] obtain c new where
      w': "w' = w4\<lparr>rngPos := c, food := food w4 @ new,
                       nextFoodId := nextFoodId w4 + length new\<rparr>"
      and ids: "\<forall>i < length new. fid (new ! i) = nextFoodId w4 + i"
      and tys: "\<forall>f \<in> set new. ftype f \<notin> set specialFoodTypes"
      by blast
    have a: "w' = w\<lparr>rngPos := c, food := food w @ (item # new),
                       nextFoodId := nextFoodId w + length (item # new)\<rparr>"
      using w' by (simp add: w4_def w3)
    have b: "\<forall>i < length (item # new). fid ((item # new) ! i) = nextFoodId w + i"
      using ids by (auto simp: item_def w4_def w3 nth_Cons split: nat.splits)
    have c: "\<forall>f \<in> set (item # new). ftype f \<notin> set specialFoodTypes"
      using tys t by (auto simp: item_def)
    from a b c show ?thesis by blast
  qed
qed

lemma dropFood_ids:
  assumes "ids_ok w" and "dropFood R col index segs w = Some w'"
  shows "ids_step w w'"
proof -
  from dropFood_shape [OF assms(2)] obtain c new where
    w': "w' = w\<lparr>rngPos := c, food := food w @ new,
                   nextFoodId := nextFoodId w + length new\<rparr>"
    and ids: "\<forall>i < length new. fid (new ! i) = nextFoodId w + i"
    by blast
  show ?thesis
  proof (rule ids_step_new_items [OF assms(1) _ _ _ _ ids])
    show "food w' = food w @ new" using w' by simp
    show "set (food w) \<subseteq> set (food w)" by simp
    show "distinct (map fid (food w))" using assms(1) by (simp add: ids_ok_def)
    show "nextFoodId w' = nextFoodId w + length new" using w' by simp
  qed
qed

lemma killPlayer_ids:
  assumes "ids_ok w" and "killPlayer R pId w = Some w'"
  shows "ids_step w w'"
proof (cases "\<exists>wm. worm_of w pId = Some wm \<and> isAlive wm")
  case True
  then obtain wm where wm: "worm_of w pId = Some wm" "isAlive wm" by blast
  let ?w1 = "update_worm_of pId (\<lambda>wm. wm\<lparr>isAlive := False\<rparr>) w"
  have d: "dropFood R (color wm) 0 (segments wm) ?w1 = Some w'"
    using assms(2) wm by (simp add: killPlayer_def)
  have "ids_ok ?w1" using assms(1) by (simp add: ids_ok_def)
  from dropFood_ids [OF this d] show ?thesis
    by (simp add: ids_step_def)
next
  case False
  then have "w' = w" using assms(2)
    by (auto simp: killPlayer_def split: option.splits if_splits)
  then show ?thesis using assms(1) by (simp add: ids_step_refl)
qed

lemma foodCollision_ids:
  assumes "ids_ok w" and "foodCollision R now k w = Some w'"
  shows "ids_step w w'"
proof -
  from assms(2) consider "w' = w"
    | head ate w1 where "eatLoop R now k head (length (food w)) False w = Some (ate, w1)"
        "food w' = food w1" "nextFoodId w' = nextFoodId w1"
    by (auto simp: foodCollision_def split: option.splits list.splits if_splits)
  then show ?thesis
  proof cases
    case 1
    then show ?thesis using assms(1) by (simp add: ids_step_refl)
  next
    case (2 head ate w1)
    from eatLoop_ids [OF assms(1) 2(1)] 2(2,3) show ?thesis
      by (rule ids_step_same_food)
  qed
qed

section \<open>Properties of one round of the food pass\<close>

lemma ex_meal_two:
  "map_option (\<lambda>w. map eid (eatenFoodThisTick w)) (foodCollision ex_R 0 ''p1'' ex_meal)
     = Some [1, 0]"
  by (simp add: foodCollision_def worm_of_def ex_meal_def ex_eater_def ex_item_def
        eatFood_def update_worm_of_def foodInReach_def
        spawnOne_def eval_nat_numeral getRandomSpawnPositionXY_def mathRandom_def
        getRandomColor_def isSpawnPositionClear_def randomFoodType_def ex_R_def
        game_consts Let_def power2_eq_square)

lemma ex_magnet_meal_two:
  "map_option (\<lambda>w. map eid (eatenFoodThisTick w))
     (foodCollision ex_R 0 ''p1'' ex_magnet_meal) = Some [1, 0]"
  by (simp add: foodCollision_def worm_of_def ex_magnet_meal_def ex_eater_def ex_item_def
        eatFood_def update_worm_of_def foodInReach_def
        spawnOne_def eval_nat_numeral getRandomSpawnPositionXY_def mathRandom_def
        getRandomColor_def isSpawnPositionClear_def randomFoodType_def ex_R_def
        game_consts Let_def power2_eq_square)

lemma foodCollision_cases:
  assumes "foodCollision R now k w = Some w'"
  obtains (headless) wm where "worm_of w k = Some wm" and "segments wm = []" and "w' = w"
  | (scan) wm head rest ate w1 wm1 where "worm_of w k = Some wm"
      and "segments wm = head # rest"
      and "eatLoop R now k head (length (food w)) False w = Some (ate, w1)"
      and "worm_of w1 k = Some wm1"
      and "w' = (if \<not> ate \<and> length (segments wm1) > WORM_INITIAL_LENGTH
                 then update_worm_of k (\<lambda>wm. wm\<lparr>segments := butlast (segments wm)\<rparr>) w1
                 else w1)"
  using assms
  by (auto simp: foodCollision_def split: option.splits list.splits if_splits)

text \<open>
  Claim C6, as the source has it. The test for \<open>break\<close> reads the magnet flag after the
  eaten item has taken effect. So a worm whose magnet is not active when its scan ends
  (it started without magnet and ate no magnet item) has removed at most one food item:
  either the food list and the list of eaten food are unchanged, or exactly one item,
  at some index \<open>j\<close>, was removed and recorded, followed by at most one replacement at
  the end. A magnet-active worm may consume several: the worm of \<open>ex_magnet_meal\<close> eats
  two items in one pass.
\<close>

theorem single_feed_without_magnet:
  assumes "foodCollision R now k w = Some w'"
    and "worm_of w' k = Some wm'" and "\<not> isMagnetActive wm'"
  shows "((food w' = food w \<and> eatenFoodThisTick w' = eatenFoodThisTick w)
         \<or> (\<exists>j new p. j < length (food w) \<and> length new \<le> 1
               \<and> map_of (players w) k = Some p
               \<and> food w' = take j (food w) @ drop (Suc j) (food w) @ new
               \<and> eatenFoodThisTick w' = eatenFoodThisTick w @
                    [\<lparr>eid = fid (food w ! j), eaterId = pid p,
                      etype = ftype (food w ! j)\<rparr>]))
       \<and> (\<exists>w2. foodCollision ex_R 0 ''p1'' ex_magnet_meal = Some w2
               \<and> length (eatenFoodThisTick w2) = 2)"
proof -
  have first: "(food w' = food w \<and> eatenFoodThisTick w' = eatenFoodThisTick w)
         \<or> (\<exists>j new p. j < length (food w) \<and> length new \<le> 1
               \<and> map_of (players w) k = Some p
               \<and> food w' = take j (food w) @ drop (Suc j) (food w) @ new
               \<and> eatenFoodThisTick w' = eatenFoodThisTick w @
                    [\<lparr>eid = fid (food w ! j), eaterId = pid p,
                      etype = ftype (food w ! j)\<rparr>])"
    using assms(1)
  proof (cases rule: foodCollision_cases)
    case (headless wm)
    then show ?thesis by simp
  next
    case (scan wm head rest ate w1 wm1)
    have same: "food w' = food w1" "eatenFoodThisTick w' = eatenFoodThisTick w1"
      using scan(5) by simp_all
    have "isMagnetActive wm1 = isMagnetActive wm'"
      using scan(4,5) assms(2) by (auto simp: worm_of_update_worm_of split: if_splits)
    then have nm: "\<not> isMagnetActive wm1" using assms(3) by simp
    from eatLoop_single [OF scan(3) scan(4) nm]
    consider "w1 = w" | i where "i < length (food w)" "eatFood R now k i w = Some w1"
      by blast
    then show ?thesis
    proof cases
      case 1
      then show ?thesis using same by simp
    next
      case (2 i)
      from eatFood_effect [OF 2(2)] 2(1) same show ?thesis
        by (metis (no_types, lifting))
    qed
  qed
  have "\<exists>w2. foodCollision ex_R 0 ''p1'' ex_magnet_meal = Some w2
               \<and> length (eatenFoodThisTick w2) = 2"
    using ex_magnet_meal_two
    by (cases "foodCollision ex_R 0 ''p1'' ex_magnet_meal") auto
  with first show ?thesis by blast
qed

lemma ex_snack_one:
  "map_option (\<lambda>w. (map eid (eatenFoodThisTick w),
                     map_option isMagnetActive (worm_of w ''p1'')))
     (foodCollision ex_R 0 ''p1'' ex_snack) = Some ([1], Some False)"
  by (simp add: foodCollision_def worm_of_def ex_snack_def ex_meal_def ex_eater_def
        ex_item_def eatFood_def update_worm_of_def foodInReach_def
        spawnOne_def eval_nat_numeral getRandomSpawnPositionXY_def mathRandom_def
        getRandomColor_def isSpawnPositionClear_def randomFoodType_def ex_R_def
        game_consts Let_def power2_eq_square)

theorem single_feed_without_magnet_witness:
  "\<exists>w' wm'. foodCollision ex_R 0 ''p1'' ex_snack = Some w'
      \<and> worm_of w' ''p1'' = Some wm' \<and> \<not> isMagnetActive wm'
      \<and> (\<exists>j new. j < length (food ex_snack) \<and> length new \<le> 1
            \<and> food w' = take j (food ex_snack) @ drop (Suc j) (food ex_snack) @ new)"
proof -
  from ex_snack_one obtain w' wm' where
    run: "foodCollision ex_R 0 ''p1'' ex_snack = Some w'"
    and wm': "worm_of w' ''p1'' = Some wm'" and nm: "\<not> isMagnetActive wm'"
    and ate: "map eid (eatenFoodThisTick w') = [1]"
    by (cases "foodCollision ex_R 0 ''p1'' ex_snack") auto
  have "eatenFoodThisTick w' \<noteq> eatenFoodThisTick ex_snack"
    using ate by (auto simp: ex_snack_def ex_meal_def)
  with single_feed_without_magnet [OF run wm' nm] run wm' nm
  show ?thesis by blast
qed

text \<open>
  Claim C6 as stated fails: the worm of \<open>ex_meal\<close> has no active magnet when the pass
  starts, eats the magnet item within normal reach, and goes on to eat the item 50 units
  away in the same pass.
\<close>

theorem magnet_food_lifts_the_limit:
  "worm_of ex_meal ''p1'' = Some ex_eater \<and> \<not> isMagnetActive ex_eater
   \<and> map_option (\<lambda>w. map eid (eatenFoodThisTick w)) (foodCollision ex_R 0 ''p1'' ex_meal)
       = Some [1, 0]"
  using ex_meal_two by (simp add: worm_of_def ex_meal_def ex_eater_def)

section \<open>Properties of the whole tick\<close>

lemma key_ids_frame [simp]:
  "key_ids (w\<lparr>food := a\<rparr>) = key_ids w"
  "key_ids (w\<lparr>rngPos := c\<rparr>) = key_ids w"
  "key_ids (w\<lparr>nextFoodId := n\<rparr>) = key_ids w"
  "key_ids (w\<lparr>eatenFoodThisTick := e\<rparr>) = key_ids w"
  by (simp_all add: key_ids_def)

lemma key_ids_update [simp]: "key_ids (update_worm_of k f w) = key_ids w"
proof -
  have "map (\<lambda>(k, p). (k, pid p))
          (map (\<lambda>(k', p). if k' = k then (k', p\<lparr>pworm := map_option f (pworm p)\<rparr>)
                           else (k', p)) ps)
        = map (\<lambda>(k, p). (k, pid p)) ps" for ps :: "(string \<times> player) list"
    by (induction ps) auto
  then show ?thesis by (simp add: key_ids_def update_worm_of_def)
qed

lemma wellKeyed_key_ids: "wellKeyed w = (distinct (map fst (key_ids w))
                             \<and> (\<forall>(k, i) \<in> set (key_ids w). i = k))"
  by (auto simp: wellKeyed_def key_ids_def comp_def case_prod_beta)

lemma key_ids_lookup:
  "map_of (key_ids w) k = map_option pid (map_of (players w) k)"
proof -
  have "map_of (map (\<lambda>(k, p). (k, pid p)) ps) k = map_option pid (map_of ps k)"
    for ps :: "(string \<times> player) list"
    by (induction ps) auto
  then show ?thesis by (simp add: key_ids_def)
qed

lemma wellKeyed_pid:
  assumes "wellKeyed w" and "map_of (players w) k = Some p"
  shows "pid p = k"
  using assms by (auto simp: wellKeyed_def dest!: map_of_SomeD)

lemma eatFood_frame:
  assumes "eatFood R now k j w = Some w'"
  shows "key_ids w' = key_ids w" and "k2 \<noteq> k \<Longrightarrow> worm_of w' k2 = worm_of w k2"
  using assms
  by (auto simp: eatFood_def Let_def worm_of_update_worm_of simp del: spawnFood.simps
           split: option.splits if_splits dest!: spawnFood_shape)

lemma eatLoop_frame:
  "eatLoop R now k head j ate w = Some (ate', w') \<Longrightarrow>
     key_ids w' = key_ids w \<and> (k2 \<noteq> k \<longrightarrow> worm_of w' k2 = worm_of w k2)"
proof (induction j arbitrary: ate w)
  case 0
  then show ?case by simp
next
  case (Suc j)
  from Suc.prems show ?case
  proof (cases rule: eatLoop_SucE)
    case (miss wm)
    then show ?thesis using Suc.IH by blast
  next
    case (last wm w1 wm1)
    then show ?thesis using eatFood_frame [OF last(4)] by simp
  next
    case (more wm w1 wm1)
    from Suc.IH [OF more(7)] eatFood_frame [OF more(4)] show ?thesis by simp
  qed
qed

lemma eatLoop_eater:
  "eatLoop R now k head j ate w = Some (ate', w') \<Longrightarrow> map_of (key_ids w) k = Some i \<Longrightarrow>
     \<exists>es. eatenFoodThisTick w' = eatenFoodThisTick w @ es \<and> (\<forall>e \<in> set es. eaterId e = i)"
proof (induction j arbitrary: ate w)
  case 0
  then show ?case by simp
next
  case (Suc j)
  from Suc.prems(1) show ?case
  proof (cases rule: eatLoop_SucE)
    case (miss wm)
    then show ?thesis using Suc.IH Suc.prems(2) by blast
  next
    case (last wm w1 wm1)
    from eatFood_effect [OF last(4)] Suc.prems(2) obtain e where
      "eatenFoodThisTick w1 = eatenFoodThisTick w @ [e]" "eaterId e = i"
      by (auto simp: key_ids_lookup)
    then show ?thesis using last by auto
  next
    case (more wm w1 wm1)
    from eatFood_effect [OF more(4)] Suc.prems(2) obtain e where
      e: "eatenFoodThisTick w1 = eatenFoodThisTick w @ [e]" "eaterId e = i"
      by (auto simp: key_ids_lookup)
    have "map_of (key_ids w1) k = Some i"
      using eatFood_frame(1) [OF more(4)] Suc.prems(2) by simp
    from Suc.IH [OF more(7) this] obtain es where
      "eatenFoodThisTick w' = eatenFoodThisTick w1 @ es" "\<forall>e \<in> set es. eaterId e = i"
      by blast
    then have "eatenFoodThisTick w' = eatenFoodThisTick w @ (e # es)"
      "\<forall>x \<in> set (e # es). eaterId x = i"
      using e by simp_all
    then show ?thesis by blast
  qed
qed

lemma foodCollision_round:
  assumes "foodCollision R now k w = Some w'" and "worm_of w k = Some wm"
  shows "\<exists>wm' es. worm_of w' k = Some wm'
           \<and> eatenFoodThisTick w' = eatenFoodThisTick w @ es
           \<and> segments wm' = (if es = [] \<and> length (segments wm) > WORM_INITIAL_LENGTH
                              then butlast (segments wm) else segments wm)
           \<and> (segments wm = [] \<longrightarrow> es = [])
           \<and> (\<forall>i. map_of (key_ids w) k = Some i \<longrightarrow> (\<forall>e \<in> set es. eaterId e = i))"
  using assms(1)
proof (cases rule: foodCollision_cases)
  case (headless wm0)
  then have "worm_of w' k = Some wm" "eatenFoodThisTick w' = eatenFoodThisTick w @ []"
    "segments wm = []"
    using assms(2) by simp_all
  then show ?thesis by (intro exI [of _ wm] exI [of _ "[]"]) simp
next
  case (scan wm0 head rest ate w1 wm1)
  have wm0: "wm0 = wm" using scan(1) assms(2) by simp
  have full: "segments wm \<noteq> []" using scan(2) wm0 by simp
  from eatLoop_worm [OF scan(3) scan(1)] scan(4)
  have seg1: "segments wm1 = segments wm" by (auto simp: wm0)
  from eatLoop_eaten [OF scan(3)] obtain es where
    es: "eatenFoodThisTick w1 = eatenFoodThisTick w @ es" and ate: "ate = (es \<noteq> [])"
    by auto
  have who: "\<forall>e \<in> set es. eaterId e = i" if "map_of (key_ids w) k = Some i" for i
    using eatLoop_eater [OF scan(3) that] es by auto
  show ?thesis
  proof (cases "\<not> ate \<and> length (segments wm1) > WORM_INITIAL_LENGTH")
    case True
    then have w': "w' = update_worm_of k (\<lambda>wm. wm\<lparr>segments := butlast (segments wm)\<rparr>) w1"
      using scan(5) by simp
    have "worm_of w' k = Some (wm1\<lparr>segments := butlast (segments wm1)\<rparr>)"
      unfolding w' using scan(4) by (simp add: worm_of_update_worm_of)
    moreover have "eatenFoodThisTick w' = eatenFoodThisTick w @ es"
      unfolding w' using es by simp
    moreover have "es = [] \<and> length (segments wm) > WORM_INITIAL_LENGTH"
      using True ate seg1 by simp
    ultimately show ?thesis using seg1 who full by auto
  next
    case False
    then have w': "w' = w1" by (simp only: scan(5) if_False)
    have "\<not> (es = [] \<and> length (segments wm) > WORM_INITIAL_LENGTH)"
      using False ate seg1 by simp
    moreover have "worm_of w' k = Some wm1" using w' scan(4) by simp
    moreover have "eatenFoodThisTick w' = eatenFoodThisTick w @ es"
      using w' es by simp
    ultimately show ?thesis using seg1 who full by auto
  qed
qed

lemma foodCollision_frame:
  assumes "foodCollision R now k w = Some w'"
  shows "key_ids w' = key_ids w" and "k2 \<noteq> k \<Longrightarrow> worm_of w' k2 = worm_of w k2"
  using assms
  by (cases rule: foodCollision_cases;
      auto dest!: eatLoop_frame [where ?k2.0 = k2] simp: worm_of_update_worm_of
           split: if_splits)+

lemma foodCollisions_worm:
  "foodCollisions R now ks w = Some w' \<Longrightarrow> distinct ks \<Longrightarrow> wellKeyed w \<Longrightarrow>
   worm_of w k = Some wm \<Longrightarrow>
     \<exists>wm' es. worm_of w' k = Some wm'
        \<and> filter (\<lambda>e. eaterId e = k) (eatenFoodThisTick w')
            = filter (\<lambda>e. eaterId e = k) (eatenFoodThisTick w) @ es
        \<and> (k \<notin> set ks \<longrightarrow> wm' = wm \<and> es = [])
        \<and> (k \<in> set ks \<longrightarrow>
             segments wm' = (if es = [] \<and> length (segments wm) > WORM_INITIAL_LENGTH
                             then butlast (segments wm) else segments wm))
        \<and> (segments wm = [] \<longrightarrow> es = [])"
proof (induction ks arbitrary: w wm)
  case Nil
  then show ?case by simp
next
  case (Cons k' ks)
  from Cons.prems(1) obtain w1 where one: "foodCollision R now k' w = Some w1"
    and rest: "foodCollisions R now ks w1 = Some w'"
    by (auto split: option.splits)
  have dist: "distinct ks" and fresh: "k' \<notin> set ks" using Cons.prems(2) by simp_all
  have keys1: "key_ids w1 = key_ids w" by (rule foodCollision_frame(1) [OF one])
  then have wk1: "wellKeyed w1" using Cons.prems(3) by (simp add: wellKeyed_key_ids)
  from one obtain wmk where wmk: "worm_of w k' = Some wmk"
    by (cases rule: foodCollision_cases) auto
  then obtain p where p: "map_of (players w) k' = Some p"
    by (auto simp: worm_of_def split: option.splits)
  have id: "map_of (key_ids w) k' = Some k'"
    using wellKeyed_pid [OF Cons.prems(3) p] p by (simp add: key_ids_lookup)
  from foodCollision_round [OF one wmk] id obtain wmk' es1 where
    r: "worm_of w1 k' = Some wmk'"
       "eatenFoodThisTick w1 = eatenFoodThisTick w @ es1"
       "segments wmk' = (if es1 = [] \<and> length (segments wmk) > WORM_INITIAL_LENGTH
                          then butlast (segments wmk) else segments wmk)"
       "\<forall>e \<in> set es1. eaterId e = k'"
       "segments wmk = [] \<longrightarrow> es1 = []"
    by blast
  show ?case
  proof (cases "k' = k")
    case True
    have wmk_eq: "wmk = wm" using wmk Cons.prems(4) True by simp
    have knot: "k \<notin> set ks" using fresh True by simp
    from Cons.IH [OF rest dist wk1] r(1) True obtain wm' es where
      a: "worm_of w' k = Some wm'"
         "filter (\<lambda>e. eaterId e = k) (eatenFoodThisTick w')
            = filter (\<lambda>e. eaterId e = k) (eatenFoodThisTick w1) @ es"
         "k \<notin> set ks \<longrightarrow> wm' = wmk' \<and> es = []"
      by blast
    have mine: "filter (\<lambda>e. eaterId e = k) es1 = es1"
      using r(4) True by (simp add: filter_id_conv)
    have "filter (\<lambda>e. eaterId e = k) (eatenFoodThisTick w')
            = filter (\<lambda>e. eaterId e = k) (eatenFoodThisTick w) @ es1"
      using a(2,3) knot r(2) mine by simp
    moreover have "segments wm' = (if es1 = [] \<and> length (segments wm) > WORM_INITIAL_LENGTH
                             then butlast (segments wm) else segments wm)"
      using a(3) knot r(3) wmk_eq by simp
    moreover have "segments wm = [] \<longrightarrow> es1 = []"
      using r(5) wmk_eq by simp
    ultimately show ?thesis using a(1) True by auto
  next
    case False
    have same: "worm_of w1 k = Some wm"
      using foodCollision_frame(2) [OF one, of k] False Cons.prems(4) by simp
    have none: "filter (\<lambda>e. eaterId e = k) es1 = []"
      using r(4) False by (auto simp: filter_empty_conv)
    from Cons.IH [OF rest dist wk1 same] obtain wm' es where
      a: "worm_of w' k = Some wm'"
         "filter (\<lambda>e. eaterId e = k) (eatenFoodThisTick w')
            = filter (\<lambda>e. eaterId e = k) (eatenFoodThisTick w1) @ es"
         "k \<notin> set ks \<longrightarrow> wm' = wm \<and> es = []"
         "k \<in> set ks \<longrightarrow>
             segments wm' = (if es = [] \<and> length (segments wm) > WORM_INITIAL_LENGTH
                             then butlast (segments wm) else segments wm)"
         "segments wm = [] \<longrightarrow> es = []"
      by blast
    have "filter (\<lambda>e. eaterId e = k) (eatenFoodThisTick w')
            = filter (\<lambda>e. eaterId e = k) (eatenFoodThisTick w) @ es"
      using a(2) r(2) none by simp
    then show ?thesis using a(1,3,4,5) False by auto
  qed
qed

lemma segments_update_worm_of:
  assumes "\<And>wm. segments (f wm) = segments wm"
  shows "map_option segments (worm_of (update_worm_of k' f w) k)
           = map_option segments (worm_of w k)"
  using assms by (cases "worm_of w k") (auto simp: worm_of_update_worm_of)

lemma killPlayer_frame:
  assumes "killPlayer R pId w = Some w'"
  shows "eatenFoodThisTick w' = eatenFoodThisTick w"
    and "map_option segments (worm_of w' k) = map_option segments (worm_of w k)"
proof -
  have "eatenFoodThisTick w' = eatenFoodThisTick w
        \<and> map_option segments (worm_of w' k) = map_option segments (worm_of w k)"
  proof (cases "\<exists>wm. worm_of w pId = Some wm \<and> isAlive wm")
    case True
    then obtain wm where wm: "worm_of w pId = Some wm" "isAlive wm" by blast
    let ?w1 = "update_worm_of pId (\<lambda>wm. wm\<lparr>isAlive := False\<rparr>) w"
    have d: "dropFood R (color wm) 0 (segments wm) ?w1 = Some w'"
      using assms wm by (simp add: killPlayer_def)
    from dropFood_shape [OF d] obtain c new where
      "w' = ?w1\<lparr>rngPos := c, food := food ?w1 @ new,
                 nextFoodId := nextFoodId ?w1 + length new\<rparr>"
      by blast
    then have "eatenFoodThisTick w' = eatenFoodThisTick w"
      and "worm_of w' k = worm_of ?w1 k"
      by simp_all
    then show ?thesis
      using segments_update_worm_of [of "\<lambda>wm. wm\<lparr>isAlive := False\<rparr>" pId w k] by simp
  next
    case False
    then have "w' = w" using assms
      by (auto simp: killPlayer_def split: option.splits if_splits)
    then show ?thesis by simp
  qed
  then show "eatenFoodThisTick w' = eatenFoodThisTick w"
    and "map_option segments (worm_of w' k) = map_option segments (worm_of w k)"
    by simp_all
qed

lemma wormCollision_frame:
  assumes "wormCollision R living k' w = Some w'"
  shows "eatenFoodThisTick w' = eatenFoodThisTick w
       \<and> map_option segments (worm_of w' k) = map_option segments (worm_of w k)"
proof -
  from assms consider "w' = w"
    | pId w1 where "killPlayer R pId w = Some w1"
        "w' = update_worm_of k' (\<lambda>wm. wm\<lparr>isAlive := False\<rparr>) w1"
    by (auto simp: wormCollision_def split: option.splits list.splits if_splits)
  then show ?thesis
  proof cases
    case 1
    then show ?thesis by simp
  next
    case (2 pId w1)
    have "map_option segments (worm_of w' k) = map_option segments (worm_of w1 k)"
      unfolding 2(2) by (rule segments_update_worm_of) simp
    with killPlayer_frame(1) [OF 2(1)] killPlayer_frame(2) [OF 2(1), of k] 2(2)
    show ?thesis by simp
  qed
qed

lemma wormCollisions_frame:
  "wormCollisions R living ks w = Some w' \<Longrightarrow>
     eatenFoodThisTick w' = eatenFoodThisTick w
     \<and> map_option segments (worm_of w' k) = map_option segments (worm_of w k)"
proof (induction ks arbitrary: w)
  case Nil
  then show ?case by simp
next
  case (Cons k' ks)
  from Cons.prems obtain w1 where one: "wormCollision R living k' w = Some w1"
    and rest: "wormCollisions R living ks w1 = Some w'"
    by (auto split: option.splits)
  from Cons.IH [OF rest] wormCollision_frame [OF one, of k] show ?case by simp
qed

lemma movePlayers_worm:
  "movePlayers now ps = Some ps' \<Longrightarrow> worm_of (w\<lparr>players := ps\<rparr>) k = Some wm \<Longrightarrow>
     \<exists>wm1. updateWorm now wm = Some wm1 \<and> worm_of (w\<lparr>players := ps'\<rparr>) k = Some wm1"
proof (induction ps arbitrary: ps')
  case Nil
  then show ?case by (simp add: worm_of_def)
next
  case (Cons kp ps)
  obtain k' p where kp: "kp = (k', p)" by (cases kp)
  from Cons.prems(1) obtain p' rest where
    p': "(case pworm p of
            None \<Rightarrow> Some p
          | Some wm \<Rightarrow>
              if isAlive wm
              then map_option (\<lambda>wm'. p\<lparr>pworm := Some wm'\<rparr>) (updateWorm now wm)
              else Some p) = Some p'"
    and rest: "movePlayers now ps = Some rest" and ps': "ps' = (k', p') # rest"
    by (auto simp: kp split: option.splits)
  show ?case
  proof (cases "k' = k")
    case True
    then have wm: "pworm p = Some wm" using Cons.prems(2) by (simp add: kp worm_of_def)
    show ?thesis
    proof (cases "isAlive wm")
      case True
      with p' wm obtain wm1 where "updateWorm now wm = Some wm1" "p' = p\<lparr>pworm := Some wm1\<rparr>"
        by auto
      then show ?thesis using \<open>k' = k\<close> by (simp add: ps' worm_of_def)
    next
      case False
      with p' wm have "p' = p" by simp
      moreover have "updateWorm now wm = Some wm" using False by (simp add: updateWorm_def)
      ultimately show ?thesis using \<open>k' = k\<close> wm by (simp add: ps' worm_of_def)
    qed
  next
    case False
    then have "worm_of (w\<lparr>players := ps\<rparr>) k = Some wm"
      using Cons.prems(2) by (simp add: kp worm_of_def)
    from Cons.IH [OF rest this] False show ?thesis by (simp add: ps' worm_of_def)
  qed
qed

lemma movePlayers_ids:
  "movePlayers now ps = Some ps' \<Longrightarrow>
     map (\<lambda>(k, p). (k, pid p)) ps' = map (\<lambda>(k, p). (k, pid p)) ps"
proof (induction ps arbitrary: ps')
  case Nil
  then show ?case by simp
next
  case (Cons kp ps)
  obtain k' p where kp: "kp = (k', p)" by (cases kp)
  from Cons.prems obtain p' rest where
    p': "(case pworm p of
            None \<Rightarrow> Some p
          | Some wm \<Rightarrow>
              if isAlive wm
              then map_option (\<lambda>wm'. p\<lparr>pworm := Some wm'\<rparr>) (updateWorm now wm)
              else Some p) = Some p'"
    and rest: "movePlayers now ps = Some rest" and ps': "ps' = (k', p') # rest"
    by (auto simp: kp split: option.splits)
  from p' have "pid p' = pid p" by (auto split: option.splits if_splits)
  with Cons.IH [OF rest] show ?case by (simp add: kp ps')
qed

lemma moveWorms_frame:
  assumes "moveWorms now w = Some m"
  shows "\<exists>ps. movePlayers now (players w) = Some ps \<and> m = w\<lparr>players := ps\<rparr>"
  using assms by (auto simp: moveWorms_def)

lemma moveWorms_worm_of:
  assumes "moveWorms now w = Some m" and "worm_of w k = Some wm"
  shows "\<exists>wm1. updateWorm now wm = Some wm1 \<and> worm_of m k = Some wm1"
proof -
  from moveWorms_frame [OF assms(1)] obtain ps where
    ps: "movePlayers now (players w) = Some ps" and m: "m = w\<lparr>players := ps\<rparr>"
    by blast
  have "worm_of (w\<lparr>players := players w\<rparr>) k = Some wm" using assms(2) by simp
  from movePlayers_worm [OF ps this] show ?thesis by (simp add: m)
qed

lemma moveWorms_key_ids: "moveWorms now w = Some m \<Longrightarrow> key_ids m = key_ids w"
  by (auto simp: key_ids_def dest!: moveWorms_frame movePlayers_ids)

lemma livingWorms_distinct: "wellKeyed w \<Longrightarrow> distinct (livingWorms w)"
  unfolding wellKeyed_def livingWorms_def by (simp add: distinct_map_filter)

lemma livingWorms_member:
  assumes "wellKeyed w" and "worm_of w k = Some wm" and "isAlive wm"
  shows "k \<in> set (livingWorms w)"
proof -
  from assms(2) obtain p where p: "map_of (players w) k = Some p" "pworm p = Some wm"
    by (auto simp: worm_of_def split: option.splits)
  then have "(k, p) \<in> set (players w)" by (auto dest: map_of_SomeD)
  then show ?thesis
    using p(2) assms(3) by (force simp: livingWorms_def)
qed

text \<open>
  Claim C5. Take a world in which every player is stored under its own id, a living worm
  of it, and one tick: the movement of all worms followed by \<open>checkCollisions\<close>. If the
  list of food eaten in this tick has an entry of this worm, its segment count after the
  tick is the count before plus one; if it has none and the worm had at least the
  initial length, its segment count is unchanged.
\<close>

theorem growth_law:
  assumes "wellKeyed w" and "worm_of w k = Some wm" and "isAlive wm"
    and "moveAndCollide R now w = Some w'"
  shows "\<exists>wm'. worm_of w' k = Some wm'
           \<and> (filter (\<lambda>e. eaterId e = k) (eatenFoodThisTick w') \<noteq> [] \<longrightarrow>
                length (segments wm') = length (segments wm) + 1)
           \<and> (filter (\<lambda>e. eaterId e = k) (eatenFoodThisTick w') = []
                \<and> WORM_INITIAL_LENGTH \<le> length (segments wm) \<longrightarrow>
                length (segments wm') = length (segments wm))"
proof -
  from assms(4) obtain m where mv: "moveWorms now w = Some m"
    and cc: "checkCollisions R now m = Some w'"
    by (auto simp: moveAndCollide_def split: option.splits)
  let ?e = "m\<lparr>eatenFoodThisTick := []\<rparr>"
  let ?ks = "livingWorms m"
  from cc obtain w1 where food: "foodCollisions R now ?ks ?e = Some w1"
    and coll: "wormCollisions R ?ks ?ks w1 = Some w'"
    by (auto simp: checkCollisions_def Let_def split: option.splits)
  have wk: "wellKeyed m"
    using assms(1) by (simp add: wellKeyed_key_ids moveWorms_key_ids [OF mv])
  then have wk0: "wellKeyed ?e" by (simp add: wellKeyed_key_ids)
  from moveWorms_worm_of [OF mv assms(2)] obtain wmu where
    up: "updateWorm now wm = Some wmu" and at: "worm_of m k = Some wmu"
    by blast
  have moved: "worm_of ?e k = Some wmu" using at by simp
  have "isAlive wmu"
    using assms(3) updateWorm_keeps(1) [OF up] by simp
  with at have mem: "k \<in> set ?ks"
    using wk by (rule livingWorms_member [rotated 1])
  have dist: "distinct ?ks" using wk by (rule livingWorms_distinct)
  from foodCollisions_worm [OF food dist wk0 moved] mem obtain wm1 es where
    wm1: "worm_of w1 k = Some wm1"
    and es: "filter (\<lambda>e. eaterId e = k) (eatenFoodThisTick w1) = es"
    and seg1: "segments wm1 =
                 (if es = [] \<and> length (segments wmu) > WORM_INITIAL_LENGTH
                  then butlast (segments wmu)
                  else segments wmu)"
    and none: "segments wmu = [] \<longrightarrow> es = []"
    by auto
  from wormCollisions_frame [OF coll, of k] wm1 obtain wm' where
    wm': "worm_of w' k = Some wm'" and seg': "segments wm' = segments wm1"
    and eaten': "eatenFoodThisTick w' = eatenFoodThisTick w1"
    by (cases "worm_of w' k") auto
  have len: "length (segments wmu)
               = (if segments wm = [] then 0 else length (segments wm) + 1)"
    using assms(3) updateWorm_keeps(7) [OF up] by simp
  have init: "WORM_INITIAL_LENGTH = 100" by (simp add: WORM_INITIAL_LENGTH_def)
  have grow: "length (segments wm') = length (segments wm) + 1" if "es \<noteq> []"
  proof -
    have "segments wm \<noteq> []"
    proof
      assume empty: "segments wm = []"
      then have "segments wmu = []" using len by simp
      with none that show False by simp
    qed
    then show ?thesis using seg' seg1 len that by simp
  qed
  have keep: "length (segments wm') = length (segments wm)"
    if "es = []" and "WORM_INITIAL_LENGTH \<le> length (segments wm)"
    using seg' seg1 len that init by auto
  from wm' grow keep es eaten' show ?thesis by auto
qed

lemma ex_eater_moved:
  "updateWorm now ex_eater =
     Some (ex_eater\<lparr>segments :=
       [\<lparr>px = 102, py = 100, pz = 0\<rparr>, \<lparr>px = 100, py = 100, pz = 0\<rparr>]\<rparr>)"
  using updateWorm_straight [of ex_eater "\<lparr>px = 100, py = 100, pz = 0\<rparr>" "[]" now]
  by (simp add: ex_eater_def currentSpeed_def WORM_SPEED_def)

lemma ex_long_segments:
  "segments ex_long = \<lparr>px = 1000, py = 1000, pz = 0\<rparr> # tl (segments ex_long)"
  "length (segments ex_long) = 100"
  by (simp_all add: ex_long_def createInitialWormSegments_def WORM_INITIAL_LENGTH_def
        WORLD_GROUND_Z_def upt_conv_Cons)

lemma ex_long_moved:
  "updateWorm now ex_long =
     Some (ex_long\<lparr>segments := \<lparr>px = 1002, py = 1000, pz = 0\<rparr> # segments ex_long\<rparr>)"
proof -
  have "currentSpeed now ex_long = 2"
    by (simp add: currentSpeed_def WORM_SPEED_def ex_long_def)
  moreover have "updateWorm now ex_long =
     Some (ex_long\<lparr>segments := \<lparr>px = px \<lparr>px = 1000, py = 1000, pz = 0\<rparr>
                                     + currentSpeed now ex_long,
                             py = py \<lparr>px = 1000, py = 1000, pz = 0\<rparr>,
                             pz = pz \<lparr>px = 1000, py = 1000, pz = 0\<rparr>\<rparr>
                           # \<lparr>px = 1000, py = 1000, pz = 0\<rparr> # tl (segments ex_long)\<rparr>)"
    by (rule updateWorm_straight [OF _ ex_long_segments(1)]) (simp_all add: ex_long_def)
  ultimately show ?thesis
    using ex_long_segments(1) by simp
qed

lemma ex_long_alive: "isAlive ex_long"
  by (simp add: ex_long_def)

lemma ex_fresh_tick:
  "map_option (\<lambda>w. (eatenFoodThisTick w,
                     map_option (\<lambda>wm. (isAlive wm, length (segments wm))) (worm_of w ''p1'')))
     (moveAndCollide ex_R 0 ex_fresh) = Some ([], Some (True, 100))"
  apply (simp add: moveAndCollide_def moveWorms_def ex_fresh_def ex_long_moved ex_long_alive)
  apply (simp add: checkCollisions_def livingWorms_def foodCollision_def worm_of_def
       ex_long_segments(2) WORM_INITIAL_LENGTH_def update_worm_of_def)
  apply (simp add: ex_long_def)
  apply (simp add: wormCollision_def outsideWorld_def hitsSelf_def hitsOther_def
       WORLD_WIDTH_def WORLD_HEIGHT_def SELF_COLLISION_START_INDEX_def)
  apply (simp add: createInitialWormSegments_def WORM_INITIAL_LENGTH_def eval_nat_numeral
       segmentNear_def game_consts power2_eq_square)
  done



lemma ex_eater_alive: "isAlive ex_eater"
  by (simp add: ex_eater_def)

lemma ex_meal_moved:
  "moveWorms now ex_meal =
     Some (ex_meal\<lparr>players := [(''p1'', \<lparr>pid = ''p1'', pname = ''Ann'', isBot = False,
        pworm = Some (ex_eater\<lparr>segments :=
          [\<lparr>px = 102, py = 100, pz = 0\<rparr>, \<lparr>px = 100, py = 100, pz = 0\<rparr>]\<rparr>)\<rparr>)]\<rparr>)"
  by (simp add: moveWorms_def ex_meal_def ex_eater_moved ex_eater_alive)

lemma ex_meal_tick:
  "map_option (\<lambda>w. (map eaterId (eatenFoodThisTick w),
                     map_option (\<lambda>wm. length (segments wm)) (worm_of w ''p1'')))
     (moveAndCollide ex_R 0 ex_meal) = Some ([''p1'', ''p1''], Some 2)"
  unfolding moveAndCollide_def ex_meal_moved option.case
  by (simp add: checkCollisions_def livingWorms_def wormCollision_def outsideWorld_def
        hitsSelf_def hitsOther_def segmentNear_def
        foodCollision_def worm_of_def ex_meal_def ex_eater_def ex_item_def
        eatFood_def update_worm_of_def foodInReach_def
        spawnOne_def eval_nat_numeral getRandomSpawnPositionXY_def mathRandom_def
        getRandomColor_def isSpawnPositionClear_def randomFoodType_def ex_R_def
        game_consts Let_def power2_eq_square)

theorem growth_law_witness:
  "(\<exists>w' wm'. moveAndCollide ex_R 0 ex_fresh = Some w' \<and> worm_of w' ''p1'' = Some wm'
        \<and> filter (\<lambda>e. eaterId e = ''p1'') (eatenFoodThisTick w') = []
        \<and> length (segments wm') = length (segments ex_long))
   \<and> (\<exists>w' wm'. moveAndCollide ex_R 0 ex_meal = Some w' \<and> worm_of w' ''p1'' = Some wm'
        \<and> filter (\<lambda>e. eaterId e = ''p1'') (eatenFoodThisTick w') \<noteq> []
        \<and> length (segments wm') = length (segments ex_eater) + 1)"
proof -
  have keyed: "wellKeyed ex_fresh" "wellKeyed ex_meal"
    by (simp_all add: wellKeyed_def ex_fresh_def ex_meal_def)
  have worms: "worm_of ex_fresh ''p1'' = Some ex_long" "worm_of ex_meal ''p1'' = Some ex_eater"
    by (simp_all add: worm_of_def ex_fresh_def ex_meal_def)
  have alive: "isAlive ex_long" "isAlive ex_eater"
    by (simp_all add: ex_long_def ex_eater_def)
  have long: "WORM_INITIAL_LENGTH \<le> length (segments ex_long)"
    by (simp add: ex_long_segments(2) WORM_INITIAL_LENGTH_def)
  from ex_fresh_tick obtain w1 where
    run1: "moveAndCollide ex_R 0 ex_fresh = Some w1" and e1: "eatenFoodThisTick w1 = []"
    by (cases "moveAndCollide ex_R 0 ex_fresh") auto
  from growth_law [OF keyed(1) worms(1) alive(1) run1] e1 long
  have first: "\<exists>wm'. worm_of w1 ''p1'' = Some wm'
        \<and> length (segments wm') = length (segments ex_long)"
    by auto
  from ex_meal_tick obtain w2 where
    run2: "moveAndCollide ex_R 0 ex_meal = Some w2"
    and e2: "map eaterId (eatenFoodThisTick w2) = [''p1'', ''p1'']"
    by (cases "moveAndCollide ex_R 0 ex_meal") auto
  have ne2: "filter (\<lambda>e. eaterId e = ''p1'') (eatenFoodThisTick w2) \<noteq> []"
  proof
    assume "filter (\<lambda>e. eaterId e = ''p1'') (eatenFoodThisTick w2) = []"
    then have "\<forall>i \<in> set (map eaterId (eatenFoodThisTick w2)). i \<noteq> ''p1''"
      by (auto simp: filter_empty_conv)
    with e2 show False by simp
  qed
  from growth_law [OF keyed(2) worms(2) alive(2) run2] ne2
  have second: "\<exists>wm'. worm_of w2 ''p1'' = Some wm'
        \<and> length (segments wm') = length (segments ex_eater) + 1"
    by auto
  from run1 e1 first run2 ne2 second show ?thesis by auto
qed

section \<open>Properties of the speed boost\<close>

lemma update_worm_of_boost:
  assumes "\<And>wm. hasSpeedBoost wm \<Longrightarrow> hasSpeedBoost (f wm)"
    and "map_option hasSpeedBoost (worm_of w k) = Some True"
  shows "map_option hasSpeedBoost (worm_of (update_worm_of k' f w) k) = Some True"
  using assms by (cases "worm_of w k") (auto simp: worm_of_update_worm_of)

lemma eatFood_boost:
  assumes "eatFood R now k' j w = Some w'"
    and "map_option hasSpeedBoost (worm_of w k) = Some True"
  shows "map_option hasSpeedBoost (worm_of w' k) = Some True"
  using assms
  by (cases "worm_of w k")
     (auto simp: eatFood_def Let_def worm_of_update_worm_of simp del: spawnFood.simps
           split: option.splits if_splits dest!: spawnFood_shape)

lemma eatFood_power:
  assumes "eatFood R now k j w = Some w'" and "ftype (food w ! j) = FOOD_TYPE_POWER"
    and "worm_of w k = Some wm"
  shows "\<exists>wm'. worm_of w' k = Some wm' \<and> hasSpeedBoost wm'
           \<and> speedBoostEndTime wm' = now + POWER_UP_DURATION_MS"
  using assms
  by (auto simp: eatFood_def Let_def worm_of_update_worm_of simp del: spawnFood.simps
           split: option.splits if_splits dest!: spawnFood_shape)

lemma eatLoop_boost:
  "eatLoop R now k' head j ate w = Some (ate', w') \<Longrightarrow>
   map_option hasSpeedBoost (worm_of w k) = Some True \<Longrightarrow>
     map_option hasSpeedBoost (worm_of w' k) = Some True"
proof (induction j arbitrary: ate w)
  case 0
  then show ?case by simp
next
  case (Suc j)
  from Suc.prems(1) show ?case
  proof (cases rule: eatLoop_SucE)
    case (miss wm)
    then show ?thesis using Suc.IH Suc.prems(2) by blast
  next
    case (last wm w1 wm1)
    then show ?thesis using eatFood_boost [OF last(4) Suc.prems(2)] by simp
  next
    case (more wm w1 wm1)
    from Suc.IH [OF more(7) eatFood_boost [OF more(4) Suc.prems(2)]] show ?thesis .
  qed
qed

lemma foodCollision_boost:
  assumes "foodCollision R now k' w = Some w'"
    and "map_option hasSpeedBoost (worm_of w k) = Some True"
  shows "map_option hasSpeedBoost (worm_of w' k) = Some True"
  using assms(1)
proof (cases rule: foodCollision_cases)
  case (headless wm)
  then show ?thesis using assms(2) by simp
next
  case (scan wm head rest ate w1 wm1)
  have b1: "map_option hasSpeedBoost (worm_of w1 k) = Some True"
    using eatLoop_boost [OF scan(3) assms(2)] .
  show ?thesis
  proof (cases "\<not> ate \<and> length (segments wm1) > WORM_INITIAL_LENGTH")
    case True
    then have "w' = update_worm_of k' (\<lambda>wm. wm\<lparr>segments := butlast (segments wm)\<rparr>) w1"
      using scan(5) by simp
    moreover have "map_option hasSpeedBoost
        (worm_of (update_worm_of k' (\<lambda>wm. wm\<lparr>segments := butlast (segments wm)\<rparr>) w1) k)
        = Some True"
      by (rule update_worm_of_boost [OF _ b1]) simp
    ultimately show ?thesis by simp
  next
    case False
    then have "w' = w1" by (simp only: scan(5) if_False)
    with b1 show ?thesis by simp
  qed
qed

lemma foodCollisions_boost:
  "foodCollisions R now ks w = Some w' \<Longrightarrow>
   map_option hasSpeedBoost (worm_of w k) = Some True \<Longrightarrow>
     map_option hasSpeedBoost (worm_of w' k) = Some True"
proof (induction ks arbitrary: w)
  case Nil
  then show ?case by simp
next
  case (Cons k' ks)
  from Cons.prems(1) obtain w1 where one: "foodCollision R now k' w = Some w1"
    and rest: "foodCollisions R now ks w1 = Some w'"
    by (auto split: option.splits)
  from Cons.IH [OF rest foodCollision_boost [OF one Cons.prems(2)]] show ?case .
qed

lemma killPlayer_boost:
  assumes "killPlayer R pId w = Some w'"
    and "map_option hasSpeedBoost (worm_of w k) = Some True"
  shows "map_option hasSpeedBoost (worm_of w' k) = Some True"
proof (cases "\<exists>wm. worm_of w pId = Some wm \<and> isAlive wm")
  case True
  then obtain wm where wm: "worm_of w pId = Some wm" "isAlive wm" by blast
  let ?w1 = "update_worm_of pId (\<lambda>wm. wm\<lparr>isAlive := False\<rparr>) w"
  have d: "dropFood R (color wm) 0 (segments wm) ?w1 = Some w'"
    using assms(1) wm by (simp add: killPlayer_def)
  from dropFood_shape [OF d] obtain c new where
    "w' = ?w1\<lparr>rngPos := c, food := food ?w1 @ new,
               nextFoodId := nextFoodId ?w1 + length new\<rparr>"
    by blast
  then have "worm_of w' k = worm_of ?w1 k" by simp
  then show ?thesis using assms(2) by (simp add: update_worm_of_boost)
next
  case False
  then have "w' = w" using assms(1)
    by (auto simp: killPlayer_def split: option.splits if_splits)
  then show ?thesis using assms(2) by simp
qed

lemma wormCollision_boost:
  assumes "wormCollision R living k' w = Some w'"
    and "map_option hasSpeedBoost (worm_of w k) = Some True"
  shows "map_option hasSpeedBoost (worm_of w' k) = Some True"
proof -
  from assms(1) consider "w' = w"
    | pId w1 where "killPlayer R pId w = Some w1"
        "w' = update_worm_of k' (\<lambda>wm. wm\<lparr>isAlive := False\<rparr>) w1"
    by (auto simp: wormCollision_def split: option.splits list.splits if_splits)
  then show ?thesis
  proof cases
    case 1
    then show ?thesis using assms(2) by simp
  next
    case (2 pId w1)
    from killPlayer_boost [OF 2(1) assms(2)] show ?thesis
      unfolding 2(2) by (simp add: update_worm_of_boost)
  qed
qed

lemma wormCollisions_boost:
  "wormCollisions R living ks w = Some w' \<Longrightarrow>
   map_option hasSpeedBoost (worm_of w k) = Some True \<Longrightarrow>
     map_option hasSpeedBoost (worm_of w' k) = Some True"
proof (induction ks arbitrary: w)
  case Nil
  then show ?case by simp
next
  case (Cons k' ks)
  from Cons.prems(1) obtain w1 where one: "wormCollision R living k' w = Some w1"
    and rest: "wormCollisions R living ks w1 = Some w'"
    by (auto split: option.splits)
  from Cons.IH [OF rest wormCollision_boost [OF one Cons.prems(2)]] show ?case .
qed

lemma moveAndCollide_boost:
  assumes "moveAndCollide R now w = Some w'"
    and "map_option hasSpeedBoost (worm_of w k) = Some True"
  shows "map_option hasSpeedBoost (worm_of w' k) = Some True"
proof -
  from assms(1) obtain m w1 where mv: "moveWorms now w = Some m"
    and food: "foodCollisions R now (livingWorms m) (m\<lparr>eatenFoodThisTick := []\<rparr>) = Some w1"
    and coll: "wormCollisions R (livingWorms m) (livingWorms m) w1 = Some w'"
    by (auto simp: moveAndCollide_def checkCollisions_def Let_def split: option.splits)
  from assms(2) obtain wm where wm: "worm_of w k = Some wm" "hasSpeedBoost wm"
    by (cases "worm_of w k") auto
  from moveWorms_worm_of [OF mv wm(1)] obtain wm1 where
    "updateWorm now wm = Some wm1" "worm_of m k = Some wm1"
    by blast
  with wm(2) have "map_option hasSpeedBoost (worm_of (m\<lparr>eatenFoodThisTick := []\<rparr>) k) = Some True"
    using updateWorm_keeps(2) by simp
  from wormCollisions_boost [OF coll foodCollisions_boost [OF food this]] show ?thesis .
qed

lemma runTicks_boost:
  "runTicks R ts w = Some w' \<Longrightarrow> map_option hasSpeedBoost (worm_of w k) = Some True \<Longrightarrow>
     map_option hasSpeedBoost (worm_of w' k) = Some True"
proof (induction ts arbitrary: w)
  case Nil
  then show ?case by simp
next
  case (Cons now ts)
  from Cons.prems(1) obtain w1 where one: "moveAndCollide R now w = Some w1"
    and rest: "runTicks R ts w1 = Some w'"
    by (auto split: option.splits)
  from Cons.IH [OF rest moveAndCollide_boost [OF one Cons.prems(2)]] show ?case .
qed

text \<open>
  Claim C1, at the input where the source breaks it. When a worm eats an item of the
  speed-boost type, the flag \<open>hasSpeedBoost\<close> is set and the expiry time is the clock
  reading plus \<open>POWER_UP_DURATION_MS\<close>. From the expiry time on the speed of the
  movement update is the base speed again, so the boost does end after the configured
  duration; but the movement update, at whatever clock reading, returns the worm with
  the flag set, and nothing else in a tick (steps 2 and 3 of \<open>gameLoop\<close>) writes the
  flag back: after any run of ticks the flag of that worm is still set.
\<close>

theorem boost_flag_never_cleared:
  assumes "eatFood R now k j w = Some w1" and "ftype (food w ! j) = FOOD_TYPE_POWER"
    and "worm_of w k = Some wm0" and "runTicks R' ts w1 = Some w2"
  shows "\<exists>wm1 wm2. worm_of w1 k = Some wm1 \<and> hasSpeedBoost wm1
           \<and> speedBoostEndTime wm1 = now + POWER_UP_DURATION_MS
           \<and> (\<forall>t. t < now + POWER_UP_DURATION_MS \<longrightarrow>
                  currentSpeed t wm1 = WORM_SPEED * SPEED_BOOST_FACTOR)
           \<and> (\<forall>t. now + POWER_UP_DURATION_MS \<le> t \<longrightarrow> currentSpeed t wm1 = WORM_SPEED)
           \<and> (\<forall>t wm'. updateWorm t wm1 = Some wm' \<longrightarrow>
                  hasSpeedBoost wm' \<and> speedBoostEndTime wm' = now + POWER_UP_DURATION_MS)
           \<and> worm_of w2 k = Some wm2 \<and> hasSpeedBoost wm2"
proof -
  from eatFood_power [OF assms(1,2,3)] obtain wm1 where
    wm1: "worm_of w1 k = Some wm1" "hasSpeedBoost wm1"
      "speedBoostEndTime wm1 = now + POWER_UP_DURATION_MS"
    by blast
  then have "map_option hasSpeedBoost (worm_of w1 k) = Some True" by simp
  from runTicks_boost [OF assms(4) this] obtain wm2 where
    "worm_of w2 k = Some wm2" "hasSpeedBoost wm2"
    by (cases "worm_of w2 k") auto
  moreover have "hasSpeedBoost wm' \<and> speedBoostEndTime wm' = now + POWER_UP_DURATION_MS"
    if "updateWorm t wm1 = Some wm'" for t wm'
    using updateWorm_keeps(2,3) [OF that] wm1 by simp
  ultimately show ?thesis using wm1 by (auto simp: currentSpeed_def)
qed

lemma ex_power_bite: "eatFood ex_R 0 ''p1'' 0 ex_power_meal = Some ex_power_eaten"
  by (simp add: eatFood_def update_worm_of_def worm_of_def ex_power_meal_def ex_meal_def
        ex_power_eaten_def ex_eater_def ex_item_def
        spawnOne_def eval_nat_numeral getRandomSpawnPositionXY_def mathRandom_def
        getRandomColor_def isSpawnPositionClear_def randomFoodType_def ex_R_def
        game_consts Let_def power2_eq_square)

lemma ex_power_ticks:
  "map_option (\<lambda>w. map_option (\<lambda>wm. (hasSpeedBoost wm, map px (segments wm)))
                  (worm_of w ''p1''))
     (runTicks ex_R [10000, 20000] ex_power_eaten) = Some (Some (True, [104, 102, 100]))"
  by (simp add: moveAndCollide_def moveWorms_def checkCollisions_def livingWorms_def
        wormCollision_def outsideWorld_def hitsSelf_def hitsOther_def segmentNear_def
        foodCollision_def worm_of_def ex_power_eaten_def ex_eater_def ex_item_def
        update_worm_of_def foodInReach_def updateWorm_east
        game_consts Let_def power2_eq_square)

theorem boost_flag_never_cleared_witness:
  "eatFood ex_R 0 ''p1'' 0 ex_power_meal = Some ex_power_eaten
   \<and> (\<exists>wm1. worm_of ex_power_eaten ''p1'' = Some wm1 \<and> speedBoostEndTime wm1 = 10000
         \<and> currentSpeed 10000 wm1 = WORM_SPEED)
   \<and> (\<exists>w2 wm2. runTicks ex_R [10000, 20000] ex_power_eaten = Some w2
         \<and> worm_of w2 ''p1'' = Some wm2 \<and> hasSpeedBoost wm2
         \<and> map px (segments wm2) = [104, 102, 100])"
proof -
  have type: "ftype (food ex_power_meal ! 0) = FOOD_TYPE_POWER"
    by (simp add: ex_power_meal_def ex_item_def)
  have worm: "worm_of ex_power_meal ''p1'' = Some ex_eater"
    by (simp add: worm_of_def ex_power_meal_def ex_meal_def)
  from ex_power_ticks obtain w2 wm2 where
    run: "runTicks ex_R [10000, 20000] ex_power_eaten = Some w2"
    and wm2: "worm_of w2 ''p1'' = Some wm2" "map px (segments wm2) = [104, 102, 100]"
    by (cases "runTicks ex_R [10000, 20000] ex_power_eaten") auto
  from boost_flag_never_cleared [OF ex_power_bite type worm run] wm2
  have "\<exists>wm1. worm_of ex_power_eaten ''p1'' = Some wm1
          \<and> speedBoostEndTime wm1 = 0 + POWER_UP_DURATION_MS
          \<and> currentSpeed (0 + POWER_UP_DURATION_MS) wm1 = WORM_SPEED"
    and "hasSpeedBoost wm2"
    by auto
  with run wm2 ex_power_bite show ?thesis
    by (auto simp: POWER_UP_DURATION_MS_def)
qed

section \<open>Food ids over any run of operations\<close>

lemma foodCollisions_ids:
  "ids_ok w \<Longrightarrow> foodCollisions R now ks w = Some w' \<Longrightarrow> ids_step w w'"
proof (induction ks arbitrary: w)
  case Nil
  then show ?case by (simp add: ids_step_refl)
next
  case (Cons k ks)
  from Cons.prems(2) obtain w1 where one: "foodCollision R now k w = Some w1"
    and rest: "foodCollisions R now ks w1 = Some w'"
    by (auto split: option.splits)
  have s1: "ids_step w w1" using foodCollision_ids [OF Cons.prems(1) one] .
  then have "ids_ok w1" by (simp add: ids_step_def)
  from Cons.IH [OF this rest] s1 show ?case
    using ids_step_trans by blast
qed

lemma wormCollision_ids:
  assumes "ids_ok w" and "wormCollision R living k w = Some w'"
  shows "ids_step w w'"
proof -
  from assms(2) consider "w' = w"
    | pId w1 where "killPlayer R pId w = Some w1"
        "w' = update_worm_of k (\<lambda>wm. wm\<lparr>isAlive := False\<rparr>) w1"
    by (auto simp: wormCollision_def split: option.splits list.splits if_splits)
  then show ?thesis
  proof cases
    case 1
    then show ?thesis using assms(1) by (simp add: ids_step_refl)
  next
    case (2 pId w1)
    from killPlayer_ids [OF assms(1) 2(1)] show ?thesis
      by (rule ids_step_same_food) (simp_all add: 2(2))
  qed
qed

lemma wormCollisions_ids:
  "ids_ok w \<Longrightarrow> wormCollisions R living ks w = Some w' \<Longrightarrow> ids_step w w'"
proof (induction ks arbitrary: w)
  case Nil
  then show ?case by (simp add: ids_step_refl)
next
  case (Cons k ks)
  from Cons.prems(2) obtain w1 where one: "wormCollision R living k w = Some w1"
    and rest: "wormCollisions R living ks w1 = Some w'"
    by (auto split: option.splits)
  have s1: "ids_step w w1" using wormCollision_ids [OF Cons.prems(1) one] .
  then have "ids_ok w1" by (simp add: ids_step_def)
  from Cons.IH [OF this rest] s1 show ?case
    using ids_step_trans by blast
qed

lemma checkCollisions_ids:
  assumes "ids_ok w" and "checkCollisions R now w = Some w'"
  shows "ids_step w w'"
proof -
  let ?e = "w\<lparr>eatenFoodThisTick := []\<rparr>"
  from assms(2) obtain w1 where
    food: "foodCollisions R now (livingWorms w) ?e = Some w1"
    and coll: "wormCollisions R (livingWorms w) (livingWorms w) w1 = Some w'"
    by (auto simp: checkCollisions_def Let_def split: option.splits)
  have ok: "ids_ok ?e" using assms(1) by (simp add: ids_ok_def)
  have a: "ids_step ?e w1" by (rule foodCollisions_ids [OF ok food])
  then have "ids_ok w1" by (simp add: ids_step_def)
  from wormCollisions_ids [OF this coll] a have "ids_step ?e w'"
    using ids_step_trans by blast
  then show ?thesis by (simp add: ids_step_def)
qed

lemma runOps_ids:
  "ids_ok w \<Longrightarrow> runOps R ops w = Some w' \<Longrightarrow> ids_step w w'"
proof (induction ops arbitrary: w)
  case Nil
  then show ?case by (simp add: ids_step_refl)
next
  case (Cons op ops)
  from Cons.prems(2) obtain w1 where one: "applyOp R op w = Some w1"
    and rest: "runOps R ops w1 = Some w'"
    by (auto split: option.splits)
  have s1: "ids_step w w1"
    using one Cons.prems(1) spawnFood_ids killPlayer_ids foodCollision_ids
      checkCollisions_ids
    by (cases op) auto
  then have "ids_ok w1" by (simp add: ids_step_def)
  from Cons.IH [OF this rest] s1 show ?case
    using ids_step_trans by blast
qed


lemma redrawFoodType_cosmetic:
  "t \<notin> set specialFoodTypes \<Longrightarrow> redrawFoodType R t w = Some (t, w)"
  by (subst redrawFoodType.simps) simp

lemma ex_step_eat: "foodCollision ex_R 0 ''p1'' ex_meal = Some ex_meal_eaten"
  by (simp add: foodCollision_def worm_of_def ex_meal_def ex_meal_eaten_def ex_eater_def
        ex_item_def eatFood_def update_worm_of_def foodInReach_def
        spawnOne_def eval_nat_numeral getRandomSpawnPositionXY_def mathRandom_def
        getRandomColor_def isSpawnPositionClear_def randomFoodType_def ex_R_def
        game_consts Let_def power2_eq_square)

lemma ex_step_kill: "killPlayer ex_R ''p1'' ex_meal_eaten = Some ex_meal_killed"
  by (simp add: worm_of_def ex_meal_eaten_def ex_meal_killed_def ex_eater_def ex_item_def
        update_worm_of_def killPlayer_def redrawFoodType_cosmetic specialFoodTypes_def
        mathRandom_def randomFoodType_def ex_R_def game_consts Let_def)

lemma ex_step_spawn: "spawnFood ex_R 1 ex_meal_killed = Some ex_meal_refilled"
  by (simp add: ex_meal_eaten_def ex_meal_killed_def ex_meal_refilled_def ex_eater_def
        ex_item_def spawnOne_def eval_nat_numeral getRandomSpawnPositionXY_def
        mathRandom_def getRandomColor_def isSpawnPositionClear_def randomFoodType_def
        ex_R_def game_consts Let_def power2_eq_square)

lemma ex_run:
  "runOps ex_R [FoodCollision 0 ''p1'', KillPlayer ''p1'', SpawnFood 1] ex_meal
     = Some ex_meal_refilled"
  by (simp add: ex_step_eat ex_step_kill ex_step_spawn [unfolded One_nat_def]
        del: spawnFood.simps)

text \<open>
  Claim C8. Start from any state in which the food ids are pairwise different and below
  the counter (the initial state, with no food and the counter at 0, is one) and run
  spawnFood calls, kills with their food drops and food-collision rounds, in any order
  and number. Then the ids present are still pairwise different and below the counter,
  the counter has not gone down, and every item present either was present at the start
  or carries an id that the counter had not yet reached. So an id below the counter that
  is absent (its item was eaten) stays absent: no id is given twice.
\<close>

theorem food_ids_never_repeat:
  assumes "distinct (map fid (food w))" and "\<forall>f \<in> set (food w). fid f < nextFoodId w"
    and "runOps R ops w = Some w'"
  shows "distinct (map fid (food w'))
       \<and> (\<forall>f \<in> set (food w'). fid f < nextFoodId w')
       \<and> nextFoodId w \<le> nextFoodId w'
       \<and> (\<forall>g \<in> set (food w'). g \<in> set (food w) \<or> nextFoodId w \<le> fid g)"
proof -
  have "ids_ok w" using assms(1,2) by (simp add: ids_ok_def)
  from runOps_ids [OF this assms(3)] show ?thesis
    by (simp add: ids_step_def ids_ok_def)
qed


theorem food_ids_never_repeat_witness:
  "runOps ex_R [FoodCollision 0 ''p1'', KillPlayer ''p1'', SpawnFood 1] ex_meal
     = Some ex_meal_refilled
   \<and> map fid (food ex_meal) = [0, 1] \<and> nextFoodId ex_meal = 2
   \<and> map fid (food ex_meal_refilled) = [2, 3, 4, 5] \<and> nextFoodId ex_meal_refilled = 6
   \<and> distinct (map fid (food ex_meal_refilled))
   \<and> nextFoodId ex_meal \<le> nextFoodId ex_meal_refilled"
proof -
  have d: "distinct (map fid (food ex_meal))"
    and b: "\<forall>f \<in> set (food ex_meal). fid f < nextFoodId ex_meal"
    by (simp_all add: ex_meal_def ex_item_def)
  have "map fid (food ex_meal) = [0, 1]" "nextFoodId ex_meal = 2"
    "map fid (food ex_meal_refilled) = [2, 3, 4, 5]" "nextFoodId ex_meal_refilled = 6"
    by (simp_all add: ex_meal_def ex_meal_refilled_def ex_item_def)
  with food_ids_never_repeat [OF d b ex_run] ex_run show ?thesis
    by simp
qed

section \<open>Properties of the leaderboard\<close>

lemma filter_take_prefix: "prefix (filter P (take n xs)) (filter P xs)"
proof -
  have "filter P xs = filter P (take n xs) @ filter P (drop n xs)"
    by (metis append_take_drop_id filter_append)
  then show ?thesis by (simp add: prefix_def)
qed

lemma leaderboard_members:
  assumes "e \<in> set (getLeaderboard w)"
  shows "\<exists>p wm. p \<in> snd ` set (players w) \<and> pworm p = Some wm \<and> e = entry_of p wm"
proof -
  from assms have "e \<in> set (leaderboardEntries w)"
    by (auto simp: getLeaderboard_def dest: in_set_takeD)
  then show ?thesis
    by (fastforce simp: leaderboardEntries_def)
qed

lemma leaderboard_descending:
  "sorted_wrt (\<lambda>a b. lscore b \<le> lscore a) (getLeaderboard w)"
proof -
  have "sorted (map (\<lambda>e. - lscore e) (sort_key (\<lambda>e. - lscore e) (leaderboardEntries w)))"
    by (rule sorted_sort_key)
  then have "sorted_wrt (\<lambda>a b. lscore b \<le> lscore a)
               (sort_key (\<lambda>e. - lscore e) (leaderboardEntries w))"
    by (simp add: sorted_map)
  then show ?thesis
    unfolding getLeaderboard_def by (rule sorted_wrt_take)
qed

lemma leaderboard_stable:
  "prefix (filter (\<lambda>e. lscore e = s) (getLeaderboard w))
          (filter (\<lambda>e. lscore e = s) (leaderboardEntries w))"
proof -
  have "filter (\<lambda>e. - lscore e = - s) (sort_key (\<lambda>e. - lscore e) (leaderboardEntries w))
          = filter (\<lambda>e. - lscore e = - s) (leaderboardEntries w)"
    by (rule sort_key_stable)
  then have "filter (\<lambda>e. lscore e = s) (sort_key (\<lambda>e. - lscore e) (leaderboardEntries w))
          = filter (\<lambda>e. lscore e = s) (leaderboardEntries w)"
    by simp
  then show ?thesis
    unfolding getLeaderboard_def by (metis filter_take_prefix)
qed

text \<open>
  Claim C7. For every registry state the leaderboard holds only entries built from
  players that have worm data, is in descending order of score, lists the entries of
  any one score in the order the registry enumerates them (the sort is stable, and the
  cut to ten keeps a prefix), and has at most 10 entries.
\<close>

theorem leaderboard_sorted_stable_top10:
  "(\<forall>e \<in> set (getLeaderboard w).
       \<exists>p wm. p \<in> snd ` set (players w) \<and> pworm p = Some wm \<and> e = entry_of p wm)
   \<and> sorted_wrt (\<lambda>a b. lscore b \<le> lscore a) (getLeaderboard w)
   \<and> (\<forall>s. prefix (filter (\<lambda>e. lscore e = s) (getLeaderboard w))
                  (filter (\<lambda>e. lscore e = s) (leaderboardEntries w)))
   \<and> length (getLeaderboard w) \<le> 10"
  using leaderboard_members leaderboard_descending leaderboard_stable
  by (simp add: getLeaderboard_def)

lemma ex_board_value:
  "map lid (getLeaderboard ex_board) = [''b'', ''a'', ''bot_0'']"
  by (simp add: getLeaderboard_def leaderboardEntries_def ex_board_def ex_world_def
        entry_of_def ex_worm_def)

theorem leaderboard_sorted_stable_top10_witness:
  "map lid (getLeaderboard ex_board) = [''b'', ''a'', ''bot_0'']
   \<and> sorted_wrt (\<lambda>a b. lscore b \<le> lscore a) (getLeaderboard ex_board)
   \<and> length (getLeaderboard ex_board) \<le> 10"
  using leaderboard_sorted_stable_top10 [of ex_board] ex_board_value
  by simp

end
